theory Spec2Isabelle
  imports Main
begin

section \<open>Data model of the agent bus (src/src/index.ts)\<close>

text \<open>
  Opaque payloads (\<open>capabilities\<close>, \<open>meta\<close>) have the TypeScript type
  \<open>Record<string, unknown>\<close>; at run time they are whatever value the request
  carried. \<open>JUndefined\<close> is the value a destructured property has when the request
  does not carry it. \<open>JObj\<close> lists the own properties of a parsed object.
\<close>

datatype json =
    JUndefined
  | JNull
  | JBool bool
  | JNum int
  | JStr string
  | JArr "json list"
  | JObj "(string \<times> json) list"

text \<open>
  The handler casts its arguments to their TypeScript types and checks nothing, so a
  string or array property that the request does not carry is \<open>undefined\<close> at run
  time: \<open>None\<close>. Properties of another type than the declared one are not modelled.
\<close>

record Agent =
  agentId :: "string option"
  capabilities :: json
  allowlist :: "string list option"
  tokenHash :: "string option"

record Message =
  msg_id :: string
  msg_ts :: int
  msg_from :: "string option"
  msg_to :: "string option"
  msg_body :: "string option"
  msg_meta :: json

subsection \<open>Plain objects used as dictionaries\<close>

text \<open>
  \<open>Record<string, V>\<close> is a plain object. Its own properties are an association list
  in enumeration order: keys that are array indices (canonical decimal numerals below
  \<open>2^32 - 1\<close>) come first, in ascending numeric order; all other keys follow in
  creation order. Assignment to an existing key keeps its position.
\<close>

type_synonym 'v obj = "(string \<times> 'v) list"

definition is_digit :: "char \<Rightarrow> bool" where
  "is_digit c = (48 \<le> (of_char c :: nat) \<and> (of_char c :: nat) \<le> 57)"

definition decimal_value :: "string \<Rightarrow> nat" where
  "decimal_value s = foldl (\<lambda>acc c. 10 * acc + ((of_char c :: nat) - 48)) 0 s"

definition array_index_of :: "string \<Rightarrow> nat option" where
  "array_index_of s =
     (if s \<noteq> [] \<and> list_all is_digit s \<and> (length s = 1 \<or> hd s \<noteq> CHR ''0'')
         \<and> decimal_value s < 4294967295
      then Some (decimal_value s) else None)"

definition obj_get :: "'v obj \<Rightarrow> string \<Rightarrow> 'v option" where
  "obj_get xs k = map_of xs k"

fun obj_replace :: "'v obj \<Rightarrow> string \<Rightarrow> 'v \<Rightarrow> 'v obj" where
  "obj_replace [] k v = []"
| "obj_replace ((k', v') # xs) k v =
     (if k' = k then (k, v) # xs else (k', v') # obj_replace xs k v)"

fun ins_index :: "nat \<Rightarrow> string \<times> 'v \<Rightarrow> 'v obj \<Rightarrow> 'v obj" where
  "ins_index n kv [] = [kv]"
| "ins_index n kv ((k', v') # xs) =
     (case array_index_of k' of
        Some m \<Rightarrow> (if m < n then (k', v') # ins_index n kv xs else kv # (k', v') # xs)
      | None \<Rightarrow> kv # (k', v') # xs)"

definition obj_insert :: "'v obj \<Rightarrow> string \<Rightarrow> 'v \<Rightarrow> 'v obj" where
  "obj_insert xs k v =
     (case array_index_of k of
        Some n \<Rightarrow> ins_index n (k, v) xs
      | None \<Rightarrow> xs @ [(k, v)])"

text \<open>
  \<open>obj_set\<close> is the assignment \<open>o[k] = v\<close> where it creates or updates an own
  property: \<open>k\<close> is an own key, or no setter is inherited under \<open>k\<close>.
\<close>

definition obj_set :: "'v obj \<Rightarrow> string \<Rightarrow> 'v \<Rightarrow> 'v obj" where
  "obj_set xs k v =
     (if obj_get xs k = None then obj_insert xs k v else obj_replace xs k v)"

definition obj_delete :: "'v obj \<Rightarrow> string \<Rightarrow> 'v obj" where
  "obj_delete xs k = filter (\<lambda>kv. fst kv \<noteq> k) xs"

text \<open>
  A property key that is \<open>undefined\<close> is the string \<open>undefined\<close>, in a property
  access as in a template literal.
\<close>

definition key_of :: "string option \<Rightarrow> string" where
  "key_of k = (case k of None \<Rightarrow> ''undefined'' | Some s \<Rightarrow> s)"

subsection \<open>The prototype chain\<close>

text \<open>
  Both dictionaries are created by object literals, so a read \<open>o[k]\<close> that finds no own
  property goes on to \<open>Object.prototype\<close>. Its members are part of the language, not
  of the repository: eleven functions, listed with their \<open>length\<close>, and the accessor
  \<open>__proto__\<close>, whose getter returns the prototype of the object read and whose
  setter replaces it. The only assignment under \<open>__proto__\<close> that the handler reaches
  is \<open>state.agents[agentId] = {...}\<close>, so the state records the prototype of
  \<open>agents\<close>: \<open>None\<close> for \<open>Object.prototype\<close>, or the Agent record assigned last.
\<close>

definition function_lengths :: "(string \<times> nat) list" where
  "function_lengths =
     [(''constructor'', 1), (''__defineGetter__'', 2), (''__defineSetter__'', 2),
      (''hasOwnProperty'', 1), (''__lookupGetter__'', 1), (''__lookupSetter__'', 1),
      (''isPrototypeOf'', 1), (''propertyIsEnumerable'', 1), (''toString'', 0),
      (''valueOf'', 0), (''toLocaleString'', 0)]"

definition object_prototype_names :: "string list" where
  "object_prototype_names = ''__proto__'' # map fst function_lengths"

record BusState =
  agents :: "Agent obj"
  mailboxes :: "Message list obj"
  agents_proto :: "Agent option"

definition empty_state :: BusState where
  "empty_state = \<lparr>agents = [], mailboxes = [], agents_proto = None\<rparr>"

text \<open>What a read of \<open>state.agents[k]\<close> can return.\<close>

datatype jsval =
    VUndefined
  | VAgent Agent
  | VStr string
  | VJson json
  | VList "string list"
  | VBuiltin

definition agents_get :: "BusState \<Rightarrow> string \<Rightarrow> jsval" where
  "agents_get s k =
     (case obj_get (agents s) k of
        Some a \<Rightarrow> VAgent a
      | None \<Rightarrow>
          (case agents_proto s of
             Some p \<Rightarrow>
               (if k = ''agentId'' then (case agentId p of None \<Rightarrow> VUndefined | Some i \<Rightarrow> VStr i)
                else if k = ''capabilities'' then VJson (capabilities p)
                else if k = ''allowlist''
                  then (case allowlist p of None \<Rightarrow> VUndefined | Some l \<Rightarrow> VList l)
                else if k = ''tokenHash''
                  then (case tokenHash p of None \<Rightarrow> VUndefined | Some h \<Rightarrow> VStr h)
                else if k = ''__proto__'' then VAgent p
                else if k \<in> set object_prototype_names then VBuiltin
                else VUndefined)
           | None \<Rightarrow> (if k \<in> set object_prototype_names then VBuiltin else VUndefined)))"

text \<open>
  The assignment \<open>state.agents[k] = v\<close>: an own property is updated; otherwise the
  inherited setter of \<open>__proto__\<close> makes \<open>v\<close> the prototype and stores nothing;
  otherwise a new own property is created.
\<close>

definition agents_assign :: "BusState \<Rightarrow> string \<Rightarrow> Agent \<Rightarrow> BusState" where
  "agents_assign s k v =
     (if obj_get (agents s) k \<noteq> None then s\<lparr>agents := obj_replace (agents s) k v\<rparr>
      else if k = ''__proto__'' then s\<lparr>agents_proto := Some v\<rparr>
      else s\<lparr>agents := obj_insert (agents s) k v\<rparr>)"

text \<open>
  What a read of \<open>state.mailboxes[k]\<close> can return: nothing, an own array, or a member
  of \<open>Object.prototype\<close> with the value of its \<open>length\<close> property.
\<close>

datatype boxval =
    BUndefined
  | BArray "Message list"
  | BBuiltin "nat option"

definition mailboxes_get :: "BusState \<Rightarrow> string \<Rightarrow> boxval" where
  "mailboxes_get s k =
     (case obj_get (mailboxes s) k of
        Some ms \<Rightarrow> BArray ms
      | None \<Rightarrow>
          (if k = ''__proto__'' then BBuiltin None
           else (case map_of function_lengths k of
                   Some n \<Rightarrow> BBuiltin (Some n)
                 | None \<Rightarrow> BUndefined)))"

subsection \<open>Truthiness and property reads\<close>

definition truthy :: "string option \<Rightarrow> bool" where
  "truthy v = (case v of None \<Rightarrow> False | Some t \<Rightarrow> t \<noteq> [])"

fun json_truthy :: "json \<Rightarrow> bool" where
  "json_truthy JUndefined = False"
| "json_truthy JNull = False"
| "json_truthy (JBool b) = b"
| "json_truthy (JNum n) = (n \<noteq> 0)"
| "json_truthy (JStr t) = (t \<noteq> [])"
| "json_truthy (JArr xs) = True"
| "json_truthy (JObj kvs) = True"

fun val_truthy :: "jsval \<Rightarrow> bool" where
  "val_truthy VUndefined = False"
| "val_truthy (VAgent a) = True"
| "val_truthy (VStr t) = (t \<noteq> [])"
| "val_truthy (VJson j) = json_truthy j"
| "val_truthy (VList l) = True"
| "val_truthy VBuiltin = True"

text \<open>
  \<open>j.k\<close> for a truthy JSON value and a key \<open>k\<close> that no prototype defines
  (\<open>tokenHash\<close>, \<open>allowlist\<close>): the own property of an object, \<open>undefined\<close>
  otherwise.
\<close>

fun json_prop :: "json \<Rightarrow> string \<Rightarrow> json" where
  "json_prop (JObj kvs) k = (case map_of kvs k of None \<Rightarrow> JUndefined | Some v \<Rightarrow> v)"
| "json_prop j k = JUndefined"

fun prop_tokenHash :: "jsval \<Rightarrow> json" where
  "prop_tokenHash (VAgent a) = (case tokenHash a of None \<Rightarrow> JUndefined | Some h \<Rightarrow> JStr h)"
| "prop_tokenHash (VJson j) = json_prop j ''tokenHash''"
| "prop_tokenHash v = JUndefined"

definition is_infix :: "string \<Rightarrow> string \<Rightarrow> bool" where
  "is_infix x ys = list_ex (\<lambda>n. take (length x) (drop n ys) = x) [0 ..< Suc (length ys)]"

subsection \<open>Array.prototype.slice\<close>

definition clamp_index :: "int \<Rightarrow> nat \<Rightarrow> nat" where
  "clamp_index i len = (if i < 0 then nat (max (int len + i) 0) else min (nat i) len)"

definition js_slice :: "'a list \<Rightarrow> int \<Rightarrow> int option \<Rightarrow> 'a list" where
  "js_slice xs start end_opt =
     (let len = length xs;
          k = clamp_index start len;
          final = (case end_opt of None \<Rightarrow> len | Some e \<Rightarrow> clamp_index e len)
      in take (final - k) (drop k xs))"

section \<open>Errors and results\<close>

text \<open>
  Every \<open>throw new Error(...)\<close> of the handler and every \<open>TypeError\<close> the engine
  raises inside the \<open>try\<close> is a value of \<open>error\<close>; the \<open>catch\<close> clause turns it
  into the payload \<open>ERROR: <message>\<close> with \<open>isError: true\<close>, which is
  \<open>ErrorText e\<close> below, its message being \<open>error_message e\<close>. The message of a
  \<open>TypeError\<close> is worded by the engine.
\<close>

datatype error =
    AgentNotFound string
  | Unauthorized
  | NotAllowed string string
  | UnknownTool string
  | TypeError

fun error_message :: "error \<Rightarrow> string option" where
  "error_message (AgentNotFound a) = Some (''Agent not registered: '' @ a)"
| "error_message Unauthorized = Some ''Invalid token''"
| "error_message (NotAllowed f t) = Some (''Not allowed: '' @ f @ '' -> '' @ t)"
| "error_message (UnknownTool n) = Some (''Unknown tool: '' @ n)"
| "error_message TypeError = None"

record AgentView =
  v_agentId :: "string option"
  v_capabilities :: json
  v_allowlist :: "string list option"

record ReadResult =
  r_agentId :: "string option"
  r_count :: nat
  r_remaining :: nat
  r_messages :: "Message list"

datatype body =
    AgentListing "AgentView list"
  | Registered string
  | Unregistered string
  | Sent string
  | ReadOut ReadResult
  | PeekOne string "nat option"
  | PeekAll "(string \<times> nat) list"
  | ErrorText error

record response =
  content :: body
  isError :: bool

section \<open>Authorization gate\<close>

text \<open>
  \<open>hashToken\<close> wraps the runtime's SHA-256 primitive, which is not part of the
  repository; it is the parameter \<open>H\<close> of every operation that hashes a token.
\<close>

definition requireAgent :: "BusState \<Rightarrow> string option \<Rightarrow> error + jsval" where
  "requireAgent s a =
     (let agent = agents_get s (key_of a)
      in if \<not> val_truthy agent then Inl (AgentNotFound (key_of a)) else Inr agent)"

definition checkToken :: "(string \<Rightarrow> string) \<Rightarrow> jsval \<Rightarrow> string option \<Rightarrow> error + unit" where
  "checkToken H agent token =
     (if json_truthy (prop_tokenHash agent) \<and>
         (\<not> truthy token \<or> JStr (H (the token)) \<noteq> prop_tokenHash agent)
      then Inl Unauthorized else Inr ())"

text \<open>
  \<open>sender.allowlist.includes(to)\<close>: the \<open>includes\<close> of an array or of a string, a
  \<open>TypeError\<close> where \<open>sender.allowlist\<close> has no such method.
\<close>

fun allowlist_includes :: "jsval \<Rightarrow> string option \<Rightarrow> error + bool" where
  "allowlist_includes (VAgent a) to =
     (case allowlist a of
        None \<Rightarrow> Inl TypeError
      | Some l \<Rightarrow> Inr (case to of None \<Rightarrow> False | Some t \<Rightarrow> t \<in> set l))"
| "allowlist_includes (VJson j) to =
     (case json_prop j ''allowlist'' of
        JArr xs \<Rightarrow> Inr ((case to of None \<Rightarrow> JUndefined | Some t \<Rightarrow> JStr t) \<in> set xs)
      | JStr str \<Rightarrow> Inr (is_infix (key_of to) str)
      | _ \<Rightarrow> Inl TypeError)"
| "allowlist_includes v to = Inl TypeError"

section \<open>The six operations\<close>

text \<open>
  Each operation takes the current state and the destructured arguments and returns what
  it threw or returned together with the state at that moment. \<open>saveState\<close> writes
  the state to a file and changes nothing in memory; it is not modelled. \<open>max\<close> is a
  JavaScript number; its integer values are modelled.
\<close>

definition agent_list :: "BusState \<Rightarrow> (error + body) \<times> BusState" where
  "agent_list s =
     (Inr (AgentListing
        (map (\<lambda>a. \<lparr>v_agentId = agentId a, v_capabilities = capabilities a,
                    v_allowlist = allowlist a\<rparr>)
             (map snd (agents s)))), s)"

definition agent_register ::
  "(string \<Rightarrow> string) \<Rightarrow> BusState \<Rightarrow> string option \<Rightarrow> json \<Rightarrow> string list option
     \<Rightarrow> string option \<Rightarrow> (error + body) \<times> BusState" where
  "agent_register H s a caps allow token =
     (let s1 = agents_assign s (key_of a)
                 \<lparr>agentId = a, capabilities = caps, allowlist = allow,
                  tokenHash = (if truthy token then Some (H (the token)) else None)\<rparr>;
          s2 = (case mailboxes_get s1 (key_of a) of
                  BUndefined \<Rightarrow> s1\<lparr>mailboxes := obj_set (mailboxes s1) (key_of a) []\<rparr>
                | _ \<Rightarrow> s1)
      in (Inr (Registered (key_of a)), s2))"

definition agent_unregister ::
  "(string \<Rightarrow> string) \<Rightarrow> BusState \<Rightarrow> string option \<Rightarrow> string option
     \<Rightarrow> (error + body) \<times> BusState" where
  "agent_unregister H s a token =
     (case requireAgent s a of
        Inl e \<Rightarrow> (Inl e, s)
      | Inr agent \<Rightarrow>
          (case checkToken H agent token of
             Inl e \<Rightarrow> (Inl e, s)
           | Inr _ \<Rightarrow>
               (let s1 = s\<lparr>agents := obj_delete (agents s) (key_of a)\<rparr>;
                    s2 = s1\<lparr>mailboxes := obj_delete (mailboxes s1) (key_of a)\<rparr>
                in (Inr (Unregistered (key_of a)), s2))))"

text \<open>
  \<open>crypto.randomUUID()\<close> and \<open>Date.now()\<close> are inputs from the environment:
  the parameters \<open>uuid\<close> and \<open>now\<close>. \<open>state.mailboxes[to] ??= []\<close> assigns
  only where the read is nullish; \<open>.push\<close> is a \<open>TypeError\<close> on an inherited
  member.
\<close>

definition message_send ::
  "(string \<Rightarrow> string) \<Rightarrow> string \<Rightarrow> int \<Rightarrow> BusState \<Rightarrow> string option \<Rightarrow> string option
     \<Rightarrow> string option \<Rightarrow> json \<Rightarrow> string option \<Rightarrow> (error + body) \<times> BusState" where
  "message_send H uuid now s frm to bdy meta token =
     (case requireAgent s frm of
        Inl e \<Rightarrow> (Inl e, s)
      | Inr sender \<Rightarrow>
          (case checkToken H sender token of
             Inl e \<Rightarrow> (Inl e, s)
           | Inr _ \<Rightarrow>
               (case requireAgent s to of
                  Inl e \<Rightarrow> (Inl e, s)
                | Inr _ \<Rightarrow>
                    (case allowlist_includes sender to of
                       Inl e \<Rightarrow> (Inl e, s)
                     | Inr allowed \<Rightarrow>
                         (if \<not> allowed then (Inl (NotAllowed (key_of frm) (key_of to)), s)
                          else
                            (let msg = \<lparr>msg_id = uuid, msg_ts = now, msg_from = frm,
                                        msg_to = to, msg_body = bdy, msg_meta = meta\<rparr>;
                                 s1 = (case mailboxes_get s (key_of to) of
                                         BUndefined \<Rightarrow>
                                           s\<lparr>mailboxes := obj_set (mailboxes s) (key_of to) []\<rparr>
                                       | _ \<Rightarrow> s)
                             in case mailboxes_get s1 (key_of to) of
                                  BArray ms \<Rightarrow>
                                    (Inr (Sent (key_of to)),
                                     s1\<lparr>mailboxes :=
                                          obj_set (mailboxes s1) (key_of to) (ms @ [msg])\<rparr>)
                                | _ \<Rightarrow> (Inl TypeError, s1)))))))"

definition message_read ::
  "(string \<Rightarrow> string) \<Rightarrow> BusState \<Rightarrow> string option \<Rightarrow> int option \<Rightarrow> bool option
     \<Rightarrow> string option \<Rightarrow> (error + body) \<times> BusState" where
  "message_read H s a max_opt drain_opt token =
     (let mx = (case max_opt of None \<Rightarrow> 50 | Some m \<Rightarrow> m);
          drain = (case drain_opt of None \<Rightarrow> True | Some d \<Rightarrow> d)
      in case requireAgent s a of
        Inl e \<Rightarrow> (Inl e, s)
      | Inr agent \<Rightarrow>
          (case checkToken H agent token of
             Inl e \<Rightarrow> (Inl e, s)
           | Inr _ \<Rightarrow>
               (case (case mailboxes_get s (key_of a) of
                        BUndefined \<Rightarrow> Some []
                      | BArray b \<Rightarrow> Some b
                      | BBuiltin n \<Rightarrow> None) of
                  None \<Rightarrow> (Inl TypeError, s)
                | Some mailbox \<Rightarrow>
                    (let messages = js_slice mailbox 0 (Some mx);
                         s1 = (if drain
                               then s\<lparr>mailboxes := obj_set (mailboxes s) (key_of a)
                                       (js_slice mailbox (int (length messages)) None)\<rparr>
                               else s)
                     in (Inr (ReadOut \<lparr>r_agentId = a, r_count = length messages,
                                        r_remaining = (case mailboxes_get s1 (key_of a) of
                                                         BArray b \<Rightarrow> length b | _ \<Rightarrow> 0),
                                        r_messages = messages\<rparr>), s1)))))"

definition message_peek :: "BusState \<Rightarrow> string option \<Rightarrow> (error + body) \<times> BusState" where
  "message_peek s a =
     (if truthy a
      then (Inr (PeekOne (the a)
                  (case mailboxes_get s (the a) of
                     BUndefined \<Rightarrow> Some 0
                   | BArray b \<Rightarrow> Some (length b)
                   | BBuiltin n \<Rightarrow> n)), s)
      else (Inr (PeekAll (map (\<lambda>kv. (fst kv, length (snd kv))) (mailboxes s))), s))"

section \<open>The dispatcher\<close>

text \<open>
  A request carries the tool name and, optionally, the \<open>arguments\<close> object.
  Destructuring an absent \<open>arguments\<close> is a \<open>TypeError\<close>; a property the object
  does not carry is \<open>undefined\<close>.
\<close>

record ToolArgs =
  a_agentId :: "string option"
  a_capabilities :: json
  a_allowlist :: "string list option"
  a_token :: "string option"
  a_from :: "string option"
  a_to :: "string option"
  a_body :: "string option"
  a_meta :: json
  a_max :: "int option"
  a_drain :: "bool option"

record request =
  tool_name :: string
  arguments :: "ToolArgs option"

definition no_args :: ToolArgs where
  "no_args = \<lparr>a_agentId = None, a_capabilities = JUndefined, a_allowlist = None, a_token = None,
              a_from = None, a_to = None, a_body = None, a_meta = JUndefined, a_max = None,
              a_drain = None\<rparr>"

definition run_tool ::
  "(string \<Rightarrow> string) \<Rightarrow> string \<Rightarrow> int \<Rightarrow> BusState \<Rightarrow> request \<Rightarrow> (error + body) \<times> BusState" where
  "run_tool H uuid now s req =
     (if tool_name req = ''agent_list'' then agent_list s
      else if tool_name req = ''agent_register'' then
        (case arguments req of
           None \<Rightarrow> (Inl TypeError, s)
         | Some a \<Rightarrow> agent_register H s (a_agentId a) (a_capabilities a) (a_allowlist a) (a_token a))
      else if tool_name req = ''agent_unregister'' then
        (case arguments req of
           None \<Rightarrow> (Inl TypeError, s)
         | Some a \<Rightarrow> agent_unregister H s (a_agentId a) (a_token a))
      else if tool_name req = ''message_send'' then
        (case arguments req of
           None \<Rightarrow> (Inl TypeError, s)
         | Some a \<Rightarrow>
             message_send H uuid now s (a_from a) (a_to a) (a_body a) (a_meta a) (a_token a))
      else if tool_name req = ''message_read'' then
        (case arguments req of
           None \<Rightarrow> (Inl TypeError, s)
         | Some a \<Rightarrow> message_read H s (a_agentId a) (a_max a) (a_drain a) (a_token a))
      else if tool_name req = ''message_peek'' then
        (case arguments req of
           None \<Rightarrow> (Inl TypeError, s)
         | Some a \<Rightarrow> message_peek s (a_agentId a))
      else (Inl (UnknownTool (tool_name req)), s))"

definition call_tool ::
  "(string \<Rightarrow> string) \<Rightarrow> string \<Rightarrow> int \<Rightarrow> BusState \<Rightarrow> request \<Rightarrow> response \<times> BusState" where
  "call_tool H uuid now s req =
     (case run_tool H uuid now s req of
        (Inl e, s') \<Rightarrow> (\<lparr>content = ErrorText e, isError = True\<rparr>, s')
      | (Inr b, s') \<Rightarrow> (\<lparr>content = b, isError = False\<rparr>, s'))"

inductive reachable :: "(string \<Rightarrow> string) \<Rightarrow> BusState \<Rightarrow> bool" for H :: "string \<Rightarrow> string" where
  reach_empty: "reachable H empty_state"
| reach_step: "reachable H s \<Longrightarrow> reachable H (snd (call_tool H uuid now s req))"

section \<open>The conditions of the claims, as stated\<close>

text \<open>
  An identifier is inherited by the registry when a read of \<open>state.agents\<close> under it
  can find something that was never stored: a member of \<open>Object.prototype\<close>, or a
  field of the Agent record that has become the prototype.
\<close>

definition inherits :: "BusState \<Rightarrow> string \<Rightarrow> bool" where
  "inherits s k =
     (k \<in> set object_prototype_names
      \<or> (agents_proto s \<noteq> None \<and> k \<in> set [''agentId'', ''capabilities'', ''allowlist'', ''tokenHash'']))"

text \<open>
  The two conditions below are written from the description of the gate, not from the
  code, and are compared with the code further down. A token is refused when the agent
  has a \<open>tokenHash\<close> and the token is absent or hashes to another value. A send is
  refused when the sender is not registered, the recipient is not registered, the
  sender's token is refused, or the recipient is not in the sender's allowlist.
\<close>

definition token_refused :: "(string \<Rightarrow> string) \<Rightarrow> Agent \<Rightarrow> string option \<Rightarrow> bool" where
  "token_refused H agent token =
     (case tokenHash agent of
        None \<Rightarrow> False
      | Some h \<Rightarrow> (case token of None \<Rightarrow> True | Some t \<Rightarrow> H t \<noteq> h))"

definition in_allowlist :: "Agent \<Rightarrow> string \<Rightarrow> bool" where
  "in_allowlist agent to = (case allowlist agent of None \<Rightarrow> False | Some l \<Rightarrow> to \<in> set l)"

definition send_refused ::
  "(string \<Rightarrow> string) \<Rightarrow> BusState \<Rightarrow> string \<Rightarrow> string \<Rightarrow> string option \<Rightarrow> bool" where
  "send_refused H s frm to token =
     (case obj_get (agents s) frm of
        None \<Rightarrow> True
      | Some sender \<Rightarrow>
          obj_get (agents s) to = None \<or> token_refused H sender token
          \<or> \<not> in_allowlist sender to)"

section \<open>Invariants of the handler\<close>

text \<open>
  The keys of both dictionaries are pairwise different, every record of the registry is
  stored under the key its \<open>agentId\<close> reads as, and every stored hash is the hash of a
  non-empty token.
\<close>

definition hash_ok :: "(string \<Rightarrow> string) \<Rightarrow> Agent \<Rightarrow> bool" where
  "hash_ok H a = (tokenHash a = None \<or> (\<exists>t. t \<noteq> [] \<and> tokenHash a = Some (H t)))"

definition entry_ok :: "(string \<Rightarrow> string) \<Rightarrow> string \<times> Agent \<Rightarrow> bool" where
  "entry_ok H kv = (key_of (agentId (snd kv)) = fst kv \<and> hash_ok H (snd kv))"

definition registry_ok :: "(string \<Rightarrow> string) \<Rightarrow> BusState \<Rightarrow> bool" where
  "registry_ok H s =
     (distinct (map fst (agents s)) \<and> distinct (map fst (mailboxes s))
      \<and> list_all (entry_ok H) (agents s))"

section \<open>Sample data\<close>

text \<open>
  A concrete stand-in for the digest, injective and never empty, and a small bus, used to
  run the operations on explicit inputs: \<open>neo\<close> needs no token and may write to
  \<open>trinity\<close>, who is protected by the token \<open>t1\<close> and may write to \<open>neo\<close>.
\<close>

definition sample_digest :: "string \<Rightarrow> string" where
  "sample_digest t = CHR ''#'' # t"

definition neo :: Agent where
  "neo = \<lparr>agentId = Some ''neo'', capabilities = JObj [(''role'', JStr ''dev'')],
          allowlist = Some [''trinity''], tokenHash = None\<rparr>"

definition trinity :: Agent where
  "trinity = \<lparr>agentId = Some ''trinity'', capabilities = JNull,
              allowlist = Some [''neo''], tokenHash = Some (sample_digest ''t1'')\<rparr>"

definition memo :: "string \<Rightarrow> Message" where
  "memo b = \<lparr>msg_id = b, msg_ts = 0, msg_from = Some ''neo'', msg_to = Some ''trinity'',
             msg_body = Some b, msg_meta = JUndefined\<rparr>"

definition sample_state :: BusState where
  "sample_state = \<lparr>agents = [(''neo'', neo), (''trinity'', trinity)],
                    mailboxes = [(''neo'', []), (''trinity'', [memo ''a'', memo ''b'', memo ''c''])],
                    agents_proto = None\<rparr>"

text \<open>Requests to the handler, built from the tool name and the properties carried.\<close>

definition register_req ::
  "string option \<Rightarrow> json \<Rightarrow> string list option \<Rightarrow> string option \<Rightarrow> request" where
  "register_req a caps allow token =
     \<lparr>tool_name = ''agent_register'',
      arguments = Some (no_args\<lparr>a_agentId := a, a_capabilities := caps, a_allowlist := allow,
                                a_token := token\<rparr>)\<rparr>"

definition unregister_req :: "string option \<Rightarrow> string option \<Rightarrow> request" where
  "unregister_req a token =
     \<lparr>tool_name = ''agent_unregister'',
      arguments = Some (no_args\<lparr>a_agentId := a, a_token := token\<rparr>)\<rparr>"

definition send_req ::
  "string option \<Rightarrow> string option \<Rightarrow> string option \<Rightarrow> json \<Rightarrow> string option \<Rightarrow> request" where
  "send_req frm to bdy meta token =
     \<lparr>tool_name = ''message_send'',
      arguments = Some (no_args\<lparr>a_from := frm, a_to := to, a_body := bdy, a_meta := meta,
                                a_token := token\<rparr>)\<rparr>"

definition read_req ::
  "string option \<Rightarrow> int option \<Rightarrow> bool option \<Rightarrow> string option \<Rightarrow> request" where
  "read_req a mx drain token =
     \<lparr>tool_name = ''message_read'',
      arguments = Some (no_args\<lparr>a_agentId := a, a_max := mx, a_drain := drain, a_token := token\<rparr>)\<rparr>"

text \<open>
  The state after three requests to the empty bus: \<open>neo\<close> registers, \<open>trinity\<close>
  registers with the token \<open>t1\<close>, and \<open>neo\<close> registers again, now with the token
  \<open>n1\<close> and an empty allowlist.
\<close>

definition three_registrations :: BusState where
  "three_registrations =
     snd (call_tool sample_digest ''u3'' 3
       (snd (call_tool sample_digest ''u2'' 2
         (snd (call_tool sample_digest ''u1'' 1 empty_state
            (register_req (Some ''neo'') JNull (Some [''trinity'']) None)))
         (register_req (Some ''trinity'') JNull (Some [''neo'']) (Some ''t1''))))
       (register_req (Some ''neo'') JNull (Some []) (Some ''n1'')))"

text \<open>
  The state after three other requests to the empty bus: an agent registers under the
  name \<open>toString\<close>, \<open>neo\<close> registers with \<open>toString\<close> in its allowlist, and
  \<open>morpheus\<close> registers without an allowlist.
\<close>

definition toString_bus :: BusState where
  "toString_bus =
     snd (call_tool sample_digest ''u3'' 3
       (snd (call_tool sample_digest ''u2'' 2
         (snd (call_tool sample_digest ''u1'' 1 empty_state
            (register_req (Some ''toString'') JNull (Some []) None)))
         (register_req (Some ''neo'') JNull (Some [''toString'']) None)))
       (register_req (Some ''morpheus'') JNull None None))"

section \<open>Facts about objects and slices\<close>

lemma obj_get_replace:
  "obj_get xs k \<noteq> None \<Longrightarrow> obj_get (obj_replace xs k v) k' = (if k' = k then Some v else obj_get xs k')"
  by (induction xs) (auto simp: obj_get_def)

lemma obj_get_ins_index:
  "obj_get xs k = None \<Longrightarrow> obj_get (ins_index n (k, v) xs) k' = (if k' = k then Some v else obj_get xs k')"
  unfolding obj_get_def
  by (induction xs) (auto split: option.splits if_splits)

lemma obj_get_append:
  "obj_get xs k = None \<Longrightarrow> obj_get (xs @ [(k, v)]) k' = (if k' = k then Some v else obj_get xs k')"
  unfolding obj_get_def
  by (induction xs) (auto split: if_splits)

lemma obj_get_insert:
  "obj_get xs k = None \<Longrightarrow> obj_get (obj_insert xs k v) k' = (if k' = k then Some v else obj_get xs k')"
  by (simp add: obj_insert_def obj_get_ins_index obj_get_append split: option.splits)

lemma obj_get_set:
  "obj_get (obj_set xs k v) k' = (if k' = k then Some v else obj_get xs k')"
  by (simp add: obj_set_def obj_get_replace obj_get_insert)

lemma obj_get_delete:
  "obj_get (obj_delete xs k) k' = (if k' = k then None else obj_get xs k')"
  unfolding obj_get_def obj_delete_def
  by (induction xs) auto

lemma keys_replace: "map fst (obj_replace xs k v) = map fst xs"
  by (induction xs) auto

lemma set_keys_ins_index: "fst ` set (ins_index n kv xs) = insert (fst kv) (fst ` set xs)"
proof (induction xs)
  case Nil
  show ?case by simp
next
  case (Cons x xs)
  obtain k' v' where x: "x = (k', v')" by (cases x)
  show ?case
  proof (cases "array_index_of k'")
    case None
    then show ?thesis by (simp add: x)
  next
    case (Some m)
    then show ?thesis using Cons.IH by (cases "m < n") (auto simp: x)
  qed
qed

lemma distinct_ins_index:
  "distinct (map fst xs) \<Longrightarrow> fst kv \<notin> set (map fst xs) \<Longrightarrow> distinct (map fst (ins_index n kv xs))"
proof (induction xs)
  case Nil
  then show ?case by simp
next
  case (Cons x xs)
  have "fst x \<notin> set (map fst (ins_index n kv xs))"
    using Cons.prems by (auto simp: set_keys_ins_index)
  with Cons show ?case
    by (cases x) (auto split: option.splits)
qed

lemma distinct_obj_set:
  "distinct (map fst xs) \<Longrightarrow> distinct (map fst (obj_set xs k v))"
  by (auto simp: obj_set_def obj_insert_def keys_replace distinct_ins_index obj_get_def map_of_eq_None_iff split: option.splits)

lemma distinct_obj_delete:
  "distinct (map fst xs) \<Longrightarrow> distinct (map fst (obj_delete xs k))"
  by (simp add: obj_delete_def distinct_map_filter)

lemma slice_head_nonneg: "0 \<le> m \<Longrightarrow> js_slice xs 0 (Some m) = take (nat m) xs"
  by (cases "nat m \<le> length xs") (simp_all add: js_slice_def clamp_index_def)

lemma slice_head_neg: "m < 0 \<Longrightarrow> js_slice xs 0 (Some m) = take (length xs - nat (- m)) xs"
proof -
  assume "m < 0"
  then have "nat (max (int (length xs) + m) 0) = length xs - nat (- m)" by linarith
  with \<open>m < 0\<close> show ?thesis by (simp add: js_slice_def clamp_index_def)
qed

lemma slice_tail: "js_slice xs (int n) None = drop n xs"
  by (cases "n \<le> length xs") (simp_all add: js_slice_def clamp_index_def)

lemma keys_obj_set_present:
  "obj_get xs k \<noteq> None \<Longrightarrow> map fst (obj_set xs k v) = map fst xs"
  by (auto simp: obj_set_def keys_replace)

lemma take_min_length: "take (min i (length xs)) xs = take i xs"
  by (cases "i \<le> length xs") (simp_all add: min_def)

section \<open>Facts about the lookups\<close>

lemma agents_get_own: "obj_get (agents s) k = Some a \<Longrightarrow> agents_get s k = VAgent a"
  by (simp add: agents_get_def)

lemma mailboxes_get_own: "obj_get (mailboxes s) k = Some ms \<Longrightarrow> mailboxes_get s k = BArray ms"
  by (simp add: mailboxes_get_def)

lemma function_lengths_names:
  "(map_of function_lengths k = None) = (k \<notin> set (map fst function_lengths))"
  by (simp add: map_of_eq_None_iff)

lemma mailboxes_get_plain:
  "k \<notin> set object_prototype_names \<Longrightarrow>
   mailboxes_get s k = (case obj_get (mailboxes s) k of None \<Rightarrow> BUndefined | Some ms \<Rightarrow> BArray ms)"
  by (cases "obj_get (mailboxes s) k")
     (auto simp: mailboxes_get_def object_prototype_names_def function_lengths_names
        split: option.splits)

lemma agents_get_plain:
  "\<not> inherits s k \<Longrightarrow>
   agents_get s k = (case obj_get (agents s) k of None \<Rightarrow> VUndefined | Some a \<Rightarrow> VAgent a)"
  by (cases "obj_get (agents s) k"; cases "agents_proto s")
     (auto simp: agents_get_def inherits_def object_prototype_names_def)

lemma requireAgent_own:
  "obj_get (agents s) k = Some a \<Longrightarrow> requireAgent s (Some k) = Inr (VAgent a)"
  by (simp add: requireAgent_def key_of_def agents_get_own)

lemma mailboxes_get_after_set:
  "mailboxes_get (s\<lparr>mailboxes := obj_set (mailboxes s) k v\<rparr>) k = BArray v"
  by (simp add: mailboxes_get_def obj_get_set)

lemma sample_lookup:
  "obj_get (agents sample_state) ''trinity'' = Some trinity"
  "obj_get (agents sample_state) ''neo'' = Some neo"
  "obj_get (mailboxes sample_state) ''trinity'' = Some [memo ''a'', memo ''b'', memo ''c'']"
  "obj_get (mailboxes sample_state) ''neo'' = Some []"
  by (simp_all add: sample_state_def obj_get_def)

lemma sample_token:
  "checkToken sample_digest (VAgent trinity) (Some ''t1'') = Inr ()"
  "checkToken sample_digest (VAgent neo) None = Inr ()"
  by (simp_all add: checkToken_def truthy_def trinity_def neo_def sample_digest_def)

section \<open>Reading a mailbox\<close>

lemma message_read_authorized:
  assumes reg: "obj_get (agents s) a = Some agent"
    and tok: "checkToken H (VAgent agent) token = Inr ()"
    and box: "obj_get (mailboxes s) a = Some mailbox"
  shows "message_read H s (Some a) max_opt drain_opt token =
     (let mx = (case max_opt of None \<Rightarrow> 50 | Some m \<Rightarrow> m);
          drain = (case drain_opt of None \<Rightarrow> True | Some d \<Rightarrow> d);
          messages = js_slice mailbox 0 (Some mx);
          s1 = (if drain
                then s\<lparr>mailboxes := obj_set (mailboxes s) a
                        (js_slice mailbox (int (length messages)) None)\<rparr>
                else s)
      in (Inr (ReadOut \<lparr>r_agentId = Some a, r_count = length messages,
                         r_remaining = (case mailboxes_get s1 a of
                                          BArray b \<Rightarrow> length b | _ \<Rightarrow> 0),
                         r_messages = messages\<rparr>), s1))"
  by (simp add: message_read_def requireAgent_own [OF reg] tok mailboxes_get_own [OF box]
        key_of_def Let_def)

text \<open>
  C2. For a registered agent \<open>a\<close> whose call passes the token check and whose mailbox is
  \<open>ms\<close> (oldest first), \<open>message_read\<close> with a non-negative \<open>max = m\<close> and
  \<open>drain\<close> true (given or by default) returns the first \<open>n = min m (length ms)\<close>
  messages in order with \<open>count = n\<close>, leaves exactly the other \<open>length ms - n\<close>
  messages in \<open>a\<close>'s mailbox in their order, reports that length as \<open>remaining\<close>,
  and touches no other mailbox, no key order and no agent.
\<close>

theorem message_read_drain:
  assumes reg: "obj_get (agents s) a = Some agent"
    and tok: "checkToken H (VAgent agent) token = Inr ()"
    and box: "obj_get (mailboxes s) a = Some ms"
    and mx: "0 \<le> m"
    and dr: "drain \<noteq> Some False"
    and n: "n = min (nat m) (length ms)"
  shows "fst (message_read H s (Some a) (Some m) drain token) =
           Inr (ReadOut \<lparr>r_agentId = Some a, r_count = n, r_remaining = length ms - n,
                          r_messages = take n ms\<rparr>)
       \<and> obj_get (mailboxes (snd (message_read H s (Some a) (Some m) drain token))) a
           = Some (drop n ms)
       \<and> take n ms @ drop n ms = ms
       \<and> (\<forall>k. k \<noteq> a \<longrightarrow>
            obj_get (mailboxes (snd (message_read H s (Some a) (Some m) drain token))) k
              = obj_get (mailboxes s) k)
       \<and> map fst (mailboxes (snd (message_read H s (Some a) (Some m) drain token)))
           = map fst (mailboxes s)
       \<and> agents (snd (message_read H s (Some a) (Some m) drain token)) = agents s
       \<and> agents_proto (snd (message_read H s (Some a) (Some m) drain token)) = agents_proto s"
proof -
  have d: "(case drain of None \<Rightarrow> True | Some d \<Rightarrow> d) = True"
    using dr by (cases drain) auto
  have sl: "js_slice ms 0 (Some m) = take n ms"
    using mx n by (simp add: slice_head_nonneg take_min_length)
  have len: "min (length ms) n = n" using n by simp
  have eq: "message_read H s (Some a) (Some m) drain token =
      (Inr (ReadOut \<lparr>r_agentId = Some a, r_count = n, r_remaining = length ms - n,
                      r_messages = take n ms\<rparr>),
       s\<lparr>mailboxes := obj_set (mailboxes s) a (drop n ms)\<rparr>)"
    by (simp add: message_read_authorized [OF reg tok box] d sl len slice_tail
          mailboxes_get_after_set)
  show ?thesis
    using box by (simp add: eq obj_get_set keys_obj_set_present)
qed

theorem message_read_drain_witness:
  "fst (message_read sample_digest sample_state (Some ''trinity'') (Some 2) None (Some ''t1'')) =
     Inr (ReadOut \<lparr>r_agentId = Some ''trinity'', r_count = 2, r_remaining = 1,
                    r_messages = [memo ''a'', memo ''b'']\<rparr>)
   \<and> obj_get (mailboxes (snd (message_read sample_digest sample_state (Some ''trinity'') (Some 2)
        None (Some ''t1'')))) ''trinity'' = Some [memo ''c'']"
proof -
  have h4: "(0::int) \<le> 2" by simp
  have h5: "(None :: bool option) \<noteq> Some False" by simp
  have h6: "(2::nat) = min (nat 2) (length [memo ''a'', memo ''b'', memo ''c''])" by simp
  from message_read_drain [OF sample_lookup(1) sample_token(1) sample_lookup(3) h4 h5 h6]
  show ?thesis by simp
qed

lemma message_read_keep_state:
  "snd (message_read H s a mx (Some False) token) = s"
  by (simp add: message_read_def Let_def split: sum.splits option.splits boxval.splits)

lemma message_read_keep_iterate:
  "((\<lambda>st. snd (message_read H st a mx (Some False) token)) ^^ n) s = s"
  by (induction n) (simp_all add: message_read_keep_state)

text \<open>
  C5. \<open>message_read\<close> with \<open>drain = false\<close> returns the state it was given, whoever
  the agent and whatever \<open>max\<close> and the token are; so after any number \<open>n\<close> of such
  reads the state is still the first one, and the next read returns the very same result
  (the same messages and the same \<open>remaining\<close>).
\<close>

theorem message_read_no_drain_frame:
  "snd (message_read H s a mx (Some False) token) = s
   \<and> ((\<lambda>st. snd (message_read H st a mx (Some False) token)) ^^ n) s = s
   \<and> fst (message_read H (((\<lambda>st. snd (message_read H st a mx (Some False) token)) ^^ n) s)
            a mx (Some False) token)
       = fst (message_read H s a mx (Some False) token)"
proof (intro conjI)
  show "snd (message_read H s a mx (Some False) token) = s"
    by (rule message_read_keep_state)
  show "((\<lambda>st. snd (message_read H st a mx (Some False) token)) ^^ n) s = s"
    by (rule message_read_keep_iterate)
  show "fst (message_read H (((\<lambda>st. snd (message_read H st a mx (Some False) token)) ^^ n) s)
            a mx (Some False) token)
       = fst (message_read H s a mx (Some False) token)"
    by (subst message_read_keep_iterate) (rule refl)
qed

theorem message_read_no_drain_frame_witness:
  "snd (message_read sample_digest sample_state (Some ''trinity'') (Some 2) (Some False)
      (Some ''t1'')) = sample_state
   \<and> fst (message_read sample_digest sample_state (Some ''trinity'') (Some 2) (Some False)
      (Some ''t1''))
     = Inr (ReadOut \<lparr>r_agentId = Some ''trinity'', r_count = 2, r_remaining = 3,
                      r_messages = [memo ''a'', memo ''b'']\<rparr>)"
proof -
  have "fst (message_read sample_digest sample_state (Some ''trinity'') (Some 2) (Some False)
      (Some ''t1''))
     = Inr (ReadOut \<lparr>r_agentId = Some ''trinity'', r_count = 2, r_remaining = 3,
                      r_messages = [memo ''a'', memo ''b'']\<rparr>)"
    by (simp add: message_read_authorized [OF sample_lookup(1) sample_token(1) sample_lookup(3)]
          mailboxes_get_own [OF sample_lookup(3)] slice_head_nonneg)
  with message_read_no_drain_frame [of sample_digest sample_state "Some ''trinity''" "Some 2"
      "Some ''t1''" 1]
  show ?thesis by simp
qed

text \<open>
  C10. A negative \<open>max = m\<close> with \<open>- length ms \<le> m\<close> is not rejected: for a registered
  agent passing the token check whose mailbox is \<open>ms\<close>, the read returns the first
  \<open>n = length ms + m\<close> messages (all but the last \<open>|m|\<close>) with \<open>count = n\<close>; with
  \<open>drain\<close> true it removes exactly those, leaving the last \<open>|m|\<close> messages, and
  reports \<open>remaining = |m|\<close>.
\<close>

theorem message_read_negative_max:
  assumes reg: "obj_get (agents s) a = Some agent"
    and tok: "checkToken H (VAgent agent) token = Inr ()"
    and box: "obj_get (mailboxes s) a = Some ms"
    and lo: "- int (length ms) \<le> m"
    and neg: "m < 0"
    and dr: "drain \<noteq> Some False"
    and n: "n = length ms - nat (- m)"
  shows "int n = int (length ms) + m
       \<and> fst (message_read H s (Some a) (Some m) (Some False) token) =
           Inr (ReadOut \<lparr>r_agentId = Some a, r_count = n, r_remaining = length ms,
                          r_messages = take n ms\<rparr>)
       \<and> fst (message_read H s (Some a) (Some m) drain token) =
           Inr (ReadOut \<lparr>r_agentId = Some a, r_count = n, r_remaining = nat (- m),
                          r_messages = take n ms\<rparr>)
       \<and> obj_get (mailboxes (snd (message_read H s (Some a) (Some m) drain token))) a
           = Some (drop n ms)
       \<and> length (drop n ms) = nat (- m)
       \<and> take n ms @ drop n ms = ms
       \<and> (\<forall>k. k \<noteq> a \<longrightarrow>
            obj_get (mailboxes (snd (message_read H s (Some a) (Some m) drain token))) k
              = obj_get (mailboxes s) k)
       \<and> agents (snd (message_read H s (Some a) (Some m) drain token)) = agents s
       \<and> agents_proto (snd (message_read H s (Some a) (Some m) drain token)) = agents_proto s"
proof -
  have d: "(case drain of None \<Rightarrow> True | Some d \<Rightarrow> d) = True"
    using dr by (cases drain) auto
  have sl: "js_slice ms 0 (Some m) = take n ms"
    using neg n by (simp add: slice_head_neg)
  have nle: "n \<le> length ms" using n by simp
  have len: "min (length ms) n = n" using nle by simp
  have int_n: "int n = int (length ms) + m" using lo neg n by linarith
  have rest: "length ms - n = nat (- m)" using lo neg n by linarith
  have keep: "fst (message_read H s (Some a) (Some m) (Some False) token) =
      Inr (ReadOut \<lparr>r_agentId = Some a, r_count = n, r_remaining = length ms,
                     r_messages = take n ms\<rparr>)"
    by (simp add: message_read_authorized [OF reg tok box] mailboxes_get_own [OF box] sl len)
  have eq: "message_read H s (Some a) (Some m) drain token =
      (Inr (ReadOut \<lparr>r_agentId = Some a, r_count = n, r_remaining = nat (- m),
                      r_messages = take n ms\<rparr>),
       s\<lparr>mailboxes := obj_set (mailboxes s) a (drop n ms)\<rparr>)"
    by (simp add: message_read_authorized [OF reg tok box] d sl len slice_tail
          mailboxes_get_after_set rest)
  show ?thesis
    using box by (simp add: eq keep int_n rest obj_get_set)
qed

theorem message_read_negative_max_witness:
  "fst (message_read sample_digest sample_state (Some ''trinity'') (Some (- 1)) (Some True)
      (Some ''t1'')) =
     Inr (ReadOut \<lparr>r_agentId = Some ''trinity'', r_count = 2, r_remaining = 1,
                    r_messages = [memo ''a'', memo ''b'']\<rparr>)
   \<and> obj_get (mailboxes (snd (message_read sample_digest sample_state (Some ''trinity'')
        (Some (- 1)) (Some True) (Some ''t1'')))) ''trinity'' = Some [memo ''c'']"
proof -
  have h4: "- int (length [memo ''a'', memo ''b'', memo ''c'']) \<le> - 1" by simp
  have h5: "(- 1 :: int) < 0" by simp
  have h6: "Some True \<noteq> Some False" by simp
  have h7: "(2::nat) = length [memo ''a'', memo ''b'', memo ''c''] - nat (- (- 1))" by simp
  from message_read_negative_max [OF sample_lookup(1) sample_token(1) sample_lookup(3) h4 h5 h6 h7]
  show ?thesis by simp
qed

section \<open>Listing agents\<close>

text \<open>
  C8. \<open>agent_list\<close> returns, for each entry of the registry in order, the view made of
  its \<open>agentId\<close>, \<open>capabilities\<close> and \<open>allowlist\<close> and nothing else, and does not
  change the state. Two states whose registries agree once every \<open>tokenHash\<close> is blanked
  give the same listing.
\<close>

theorem agent_list_hides_tokenHash:
  assumes "map (\<lambda>kv. (fst kv, (snd kv)\<lparr>tokenHash := None\<rparr>)) (agents s)
         = map (\<lambda>kv. (fst kv, (snd kv)\<lparr>tokenHash := None\<rparr>)) (agents s')"
  shows "fst (agent_list s) = fst (agent_list s')
       \<and> fst (agent_list s) =
           Inr (AgentListing (map (\<lambda>kv. \<lparr>v_agentId = agentId (snd kv),
                                          v_capabilities = capabilities (snd kv),
                                          v_allowlist = allowlist (snd kv)\<rparr>) (agents s)))
       \<and> snd (agent_list s) = s"
proof -
  let ?view = "\<lambda>a. \<lparr>v_agentId = agentId a, v_capabilities = capabilities a,
                     v_allowlist = allowlist a\<rparr>"
  let ?erase = "\<lambda>kv :: string \<times> Agent. (fst kv, (snd kv)\<lparr>tokenHash := None\<rparr>)"
  have through: "map ?view (map snd xs) = map ?view (map snd (map ?erase xs))" for xs
    by (simp add: comp_def)
  have "map ?view (map snd (agents s)) = map ?view (map snd (agents s'))"
    using assms through [of "agents s"] through [of "agents s'"] by simp
  then show ?thesis
    by (simp add: agent_list_def comp_def)
qed

theorem agent_list_hides_tokenHash_witness:
  "fst (agent_list sample_state)
     = fst (agent_list \<lparr>agents = [(''neo'', neo\<lparr>tokenHash := Some ''x''\<rparr>),
                                  (''trinity'', trinity\<lparr>tokenHash := None\<rparr>)],
                        mailboxes = [], agents_proto = None\<rparr>)"
proof -
  have h: "map (\<lambda>kv. (fst kv, (snd kv)\<lparr>tokenHash := None\<rparr>)) (agents sample_state)
         = map (\<lambda>kv. (fst kv, (snd kv)\<lparr>tokenHash := None\<rparr>))
             (agents \<lparr>agents = [(''neo'', neo\<lparr>tokenHash := Some ''x''\<rparr>),
                                 (''trinity'', trinity\<lparr>tokenHash := None\<rparr>)],
                       mailboxes = [], agents_proto = None\<rparr>)"
    by (simp add: sample_state_def)
  from agent_list_hides_tokenHash [OF h] show ?thesis by simp
qed

section \<open>Errors and the state\<close>

lemma agent_unregister_error: "fst (agent_unregister H s a token) = Inl e \<Longrightarrow>
    snd (agent_unregister H s a token) = s"
  by (auto simp: agent_unregister_def Let_def split: sum.splits)

lemma message_send_error: "fst (message_send H uuid now s frm to bdy meta token) = Inl e \<Longrightarrow>
    snd (message_send H uuid now s frm to bdy meta token) = s"
  by (auto simp: message_send_def Let_def mailboxes_get_after_set
      split: sum.splits if_splits boxval.splits)

lemma message_read_error: "fst (message_read H s a mx drain token) = Inl e \<Longrightarrow>
    snd (message_read H s a mx drain token) = s"
  by (auto simp: message_read_def Let_def split: sum.splits if_splits option.splits)

lemma run_tool_error_keeps_state:
  "fst (run_tool H uuid now s req) = Inl e \<Longrightarrow> snd (run_tool H uuid now s req) = s"
  by (auto simp: run_tool_def agent_list_def agent_register_def message_peek_def Let_def
      agent_unregister_error message_send_error message_read_error
      split: if_splits option.splits)

lemma call_tool_isError:
  "isError (fst (call_tool H uuid now s req)) = isl (fst (run_tool H uuid now s req))"
  by (cases "run_tool H uuid now s req"; cases "fst (run_tool H uuid now s req)")
     (auto simp: call_tool_def)

lemma call_tool_state:
  "snd (call_tool H uuid now s req) = snd (run_tool H uuid now s req)"
  by (cases "run_tool H uuid now s req"; cases "fst (run_tool H uuid now s req)")
     (auto simp: call_tool_def)

text \<open>
  C9. Whenever the handler answers a request with an error payload, the state after the
  call is the state before it: every \<open>throw\<close> of the six operations (and of the
  \<open>default\<close> branch) comes before the first assignment to the state.
\<close>

theorem error_leaves_state:
  assumes "isError (fst (call_tool H uuid now s req))"
  shows "snd (call_tool H uuid now s req) = s"
proof -
  from assms obtain e where "fst (run_tool H uuid now s req) = Inl e"
    by (auto simp: call_tool_isError isl_def)
  then show ?thesis
    by (simp add: call_tool_state run_tool_error_keeps_state)
qed

theorem error_leaves_state_witness:
  "isError (fst (call_tool sample_digest ''u1'' 7 sample_state
      (send_req (Some ''trinity'') (Some ''neo'') (Some ''hi'') JUndefined None)))
   \<and> snd (call_tool sample_digest ''u1'' 7 sample_state
      (send_req (Some ''trinity'') (Some ''neo'') (Some ''hi'') JUndefined None)) = sample_state"
proof -
  have h: "isError (fst (call_tool sample_digest ''u1'' 7 sample_state
      (send_req (Some ''trinity'') (Some ''neo'') (Some ''hi'') JUndefined None)))"
    by (simp add: call_tool_def run_tool_def send_req_def no_args_def message_send_def
          requireAgent_own [OF sample_lookup(1)] checkToken_def
          truthy_def trinity_def sample_digest_def)
  from h error_leaves_state [OF h] show ?thesis by simp
qed

section \<open>Reachable states\<close>

lemma set_obj_replace: "set (obj_replace xs k v) \<subseteq> insert (k, v) (set xs)"
  by (induction xs) (auto split: if_splits)

lemma set_ins_index: "set (ins_index n kv xs) = insert kv (set xs)"
proof (induction xs)
  case Nil
  show ?case by simp
next
  case (Cons x xs)
  obtain k' v' where x: "x = (k', v')" by (cases x)
  show ?case
  proof (cases "array_index_of k'")
    case None
    then show ?thesis by (simp add: x)
  next
    case (Some m)
    then show ?thesis using Cons.IH by (cases "m < n") (auto simp: x)
  qed
qed

lemma set_obj_insert: "set (obj_insert xs k v) = insert (k, v) (set xs)"
  by (auto simp: obj_insert_def set_ins_index split: option.splits)

lemma set_obj_set: "set (obj_set xs k v) \<subseteq> insert (k, v) (set xs)"
  using set_obj_replace [of xs k v]
  by (auto simp: obj_set_def set_obj_insert)

lemma distinct_obj_replace: "distinct (map fst xs) \<Longrightarrow> distinct (map fst (obj_replace xs k v))"
  by (simp add: keys_replace)

lemma distinct_obj_insert:
  "distinct (map fst xs) \<Longrightarrow> obj_get xs k = None \<Longrightarrow> distinct (map fst (obj_insert xs k v))"
  by (auto simp: obj_insert_def distinct_ins_index obj_get_def map_of_eq_None_iff
      split: option.splits)

lemma registry_ok_alt:
  "registry_ok H s =
     (distinct (map fst (agents s)) \<and> distinct (map fst (mailboxes s))
      \<and> (\<forall>kv \<in> set (agents s). entry_ok H kv))"
  by (simp add: registry_ok_def list_all_iff)

lemma new_record_ok:
  "entry_ok H (key_of a, \<lparr>agentId = a, capabilities = caps, allowlist = allow,
       tokenHash = (if truthy token then Some (H (the token)) else None)\<rparr>)"
  by (cases token) (auto simp: entry_ok_def hash_ok_def truthy_def)

lemma registry_ok_agents_assign:
  assumes "registry_ok H s" and "entry_ok H (k, v)"
  shows "registry_ok H (agents_assign s k v)"
proof -
  have rep: "\<forall>kv \<in> set (obj_replace (agents s) k v). entry_ok H kv"
    using assms set_obj_replace [of "agents s" k v] by (auto simp: registry_ok_alt)
  have ins: "\<forall>kv \<in> set (obj_insert (agents s) k v). entry_ok H kv"
    using assms by (auto simp: registry_ok_alt set_obj_insert)
  show ?thesis
    using assms(1) rep ins
    by (auto simp: registry_ok_alt agents_assign_def distinct_obj_replace distinct_obj_insert)
qed

lemma registry_ok_mailboxes:
  "registry_ok H s \<Longrightarrow> registry_ok H (s\<lparr>mailboxes := obj_set (mailboxes s) k v\<rparr>)"
  by (simp add: registry_ok_alt distinct_obj_set)

lemma registry_ok_agent_register:
  assumes "registry_ok H s"
  shows "registry_ok H (snd (agent_register H s a caps allow token))"
proof -
  have "registry_ok H (agents_assign s (key_of a)
      \<lparr>agentId = a, capabilities = caps, allowlist = allow,
       tokenHash = (if truthy token then Some (H (the token)) else None)\<rparr>)"
    using assms new_record_ok by (rule registry_ok_agents_assign)
  then show ?thesis
    by (auto simp: agent_register_def Let_def registry_ok_mailboxes split: boxval.splits)
qed

lemma registry_ok_agent_unregister:
  assumes "registry_ok H s"
  shows "registry_ok H (snd (agent_unregister H s a token))"
proof -
  have "\<forall>kv \<in> set (obj_delete (agents s) k). entry_ok H kv" for k
    using assms by (auto simp: registry_ok_alt obj_delete_def)
  with assms show ?thesis
    by (auto simp: registry_ok_alt agent_unregister_def Let_def distinct_obj_delete
        split: sum.splits)
qed

lemma registry_ok_message_send:
  assumes "registry_ok H s"
  shows "registry_ok H (snd (message_send H uuid now s frm to bdy meta token))"
  using assms
  by (auto simp: message_send_def Let_def registry_ok_mailboxes
      split: sum.splits boxval.splits if_splits)

lemma registry_ok_message_read:
  assumes "registry_ok H s"
  shows "registry_ok H (snd (message_read H s a mx drain token))"
  using assms
  by (auto simp: message_read_def Let_def registry_ok_mailboxes
      split: sum.splits option.splits if_splits)

lemma registry_ok_run_tool:
  assumes "registry_ok H s"
  shows "registry_ok H (snd (run_tool H uuid now s req))"
  using assms
  by (auto simp: run_tool_def agent_list_def message_peek_def registry_ok_agent_register
      registry_ok_agent_unregister registry_ok_message_send registry_ok_message_read
      split: option.splits)

lemma reachable_registry_ok: "reachable H s \<Longrightarrow> registry_ok H s"
proof (induction rule: reachable.induct)
  case reach_empty
  show ?case by (simp add: registry_ok_def empty_state_def)
next
  case (reach_step s uuid now req)
  then show ?case by (simp add: call_tool_state registry_ok_run_tool)
qed

lemma reachable_entry:
  assumes "reachable H s" and "obj_get (agents s) k = Some a"
  shows "key_of (agentId a) = k" and "hash_ok H a"
proof -
  from assms(2) have "(k, a) \<in> set (agents s)"
    by (simp add: obj_get_def map_of_SomeD)
  with reachable_registry_ok [OF assms(1)] show "key_of (agentId a) = k" and "hash_ok H a"
    by (auto simp: registry_ok_alt entry_ok_def)
qed

lemma plain_sample_names:
  "array_index_of ''neo'' = None" "array_index_of ''trinity'' = None"
  by (simp_all add: array_index_of_def is_digit_def)

lemma three_registrations_value:
  "three_registrations =
     \<lparr>agents = [(''neo'', \<lparr>agentId = Some ''neo'', capabilities = JNull, allowlist = Some [],
                           tokenHash = Some (sample_digest ''n1'')\<rparr>),
                 (''trinity'', trinity)],
      mailboxes = [(''neo'', []), (''trinity'', [])], agents_proto = None\<rparr>"
  by (simp add: three_registrations_def call_tool_def run_tool_def register_req_def no_args_def
        agent_register_def agents_assign_def mailboxes_get_def function_lengths_def key_of_def
        empty_state_def truthy_def obj_get_def obj_set_def obj_insert_def plain_sample_names
        trinity_def)

text \<open>
  C6 (amended). In every state reachable from the empty state by requests to the handler,
  no two entries of the registry share a key and no two Agent records share an
  \<open>agentId\<close>. Nothing requires the key to be non-empty.
\<close>

theorem agentIds_unique:
  assumes "reachable H s"
  shows "distinct (map fst (agents s))
       \<and> distinct (map agentId (map snd (agents s)))"
proof -
  from assms have ok: "registry_ok H s" by (rule reachable_registry_ok)
  then have keys: "distinct (map fst (agents s))"
    and ent: "\<forall>kv \<in> set (agents s). key_of (agentId (snd kv)) = fst kv"
    by (auto simp: registry_ok_alt entry_ok_def)
  have "inj_on (\<lambda>kv. agentId (snd kv)) (set (agents s))"
  proof (rule inj_onI)
    fix x y assume x: "x \<in> set (agents s)" and y: "y \<in> set (agents s)"
      and eq: "agentId (snd x) = agentId (snd y)"
    from ent x y eq have "fst x = fst y" by metis
    with keys x y show "x = y"
      by (meson distinct_map inj_onD)
  qed
  moreover from keys have "distinct (agents s)" by (simp add: distinct_map)
  ultimately have "distinct (map (\<lambda>kv. agentId (snd kv)) (agents s))"
    by (simp add: distinct_map)
  with keys show ?thesis by (simp add: comp_def)
qed

theorem agentIds_unique_witness:
  "distinct (map fst (agents three_registrations))
   \<and> map fst (agents three_registrations) = [''neo'', ''trinity'']
   \<and> map agentId (map snd (agents three_registrations)) = [Some ''neo'', Some ''trinity'']"
proof -
  have r: "reachable sample_digest three_registrations"
    unfolding three_registrations_def
    by (intro reach_step reach_empty)
  from agentIds_unique [OF r] show ?thesis
    by (simp add: three_registrations_value trinity_def)
qed

text \<open>
  Registering the empty string as \<open>agentId\<close> on the empty state succeeds and leaves an
  agent whose key is the empty string.
\<close>

theorem empty_agentId_reachable:
  "reachable sample_digest (snd (call_tool sample_digest ''u1'' 7 empty_state
      (register_req (Some '''') JNull (Some []) None)))
   \<and> map fst (agents (snd (call_tool sample_digest ''u1'' 7 empty_state
      (register_req (Some '''') JNull (Some []) None)))) = ['''']"
proof
  show "reachable sample_digest (snd (call_tool sample_digest ''u1'' 7 empty_state
      (register_req (Some '''') JNull (Some []) None)))"
    by (rule reach_step) (rule reach_empty)
  show "map fst (agents (snd (call_tool sample_digest ''u1'' 7 empty_state
      (register_req (Some '''') JNull (Some []) None)))) = ['''']"
    by (simp add: call_tool_def run_tool_def register_req_def no_args_def
        agent_register_def agents_assign_def mailboxes_get_def function_lengths_def key_of_def
        empty_state_def truthy_def obj_get_def obj_set_def obj_insert_def array_index_of_def)
qed

section \<open>The token gate\<close>

lemma checkToken_refused:
  assumes ok: "hash_ok H agent" and inj: "inj H" and ne: "\<forall>t. H t \<noteq> []"
  shows "checkToken H (VAgent agent) token
       = (if token_refused H agent token then Inl Unauthorized else Inr ())"
proof (cases "tokenHash agent")
  case None
  then show ?thesis by (simp add: checkToken_def token_refused_def)
next
  case (Some h)
  with ok obtain t0 where t0: "t0 \<noteq> []" and h: "h = H t0"
    by (auto simp: hash_ok_def)
  have hne: "h \<noteq> []" using ne h by simp
  show ?thesis
  proof (cases token)
    case None
    with Some hne show ?thesis by (simp add: checkToken_def token_refused_def truthy_def)
  next
    case (Some t)
    have "H [] \<noteq> h" using inj t0 h by (auto dest: injD)
    with Some \<open>tokenHash agent = Some h\<close> hne show ?thesis
      by (cases "t = []") (auto simp: checkToken_def token_refused_def truthy_def)
  qed
qed

lemma allowlist_includes_error: "allowlist_includes v to = Inl e \<Longrightarrow> e = TypeError"
  by (cases v) (auto split: option.splits json.splits)

lemma message_send_gate:
  assumes "requireAgent s frm = Inr sender"
  shows "(fst (message_send H uuid now s frm to bdy meta token) = Inl Unauthorized)
       = (checkToken H sender token = Inl Unauthorized)"
proof (cases "checkToken H sender token")
  case (Inl e)
  then have "e = Unauthorized" by (auto simp: checkToken_def split: if_splits)
  with Inl assms show ?thesis by (simp add: message_send_def)
next
  case (Inr u)
  have "fst (message_send H uuid now s frm to bdy meta token) \<noteq> Inl Unauthorized"
    using assms Inr
    by (auto simp: message_send_def Let_def dest: allowlist_includes_error
        split: sum.splits boxval.splits)
       (auto simp: requireAgent_def Let_def split: if_splits)
  with Inr show ?thesis by simp
qed

text \<open>
  C4. Take the digest to be injective and never empty, as SHA-256 in hexadecimal is
  taken to be. In every state reachable through the handler, for every registered agent
  with a \<open>tokenHash\<close>, \<open>checkToken\<close> fails with \<open>Unauthorized\<close> exactly when
  the token is absent or hashes to another value than the stored one, and passes when it
  hashes to the stored one; with no \<open>tokenHash\<close> it passes whatever token is
  supplied. \<open>agent_unregister\<close>, \<open>message_read\<close> and \<open>message_send\<close> (for
  its sender) fail with \<open>Unauthorized\<close> in exactly that case, and
  \<open>agent_unregister\<close> succeeds otherwise.
\<close>

theorem token_gate:
  assumes reach: "reachable H s" and inj: "inj H" and ne: "\<forall>t. H t \<noteq> []"
    and reg: "obj_get (agents s) a = Some agent"
  shows "(tokenHash agent = None \<longrightarrow> checkToken H (VAgent agent) token = Inr ())
       \<and> (\<forall>h. tokenHash agent = Some h \<longrightarrow>
             (checkToken H (VAgent agent) token = Inl Unauthorized)
               = (token = None \<or> H (the token) \<noteq> h))
       \<and> (\<forall>h. tokenHash agent = Some h \<and> token \<noteq> None \<and> H (the token) = h \<longrightarrow>
             checkToken H (VAgent agent) token = Inr ())
       \<and> (fst (agent_unregister H s (Some a) token) = Inl Unauthorized)
           = token_refused H agent token
       \<and> (fst (message_read H s (Some a) mx drain token) = Inl Unauthorized)
           = token_refused H agent token
       \<and> (fst (message_send H uuid now s (Some a) to bdy meta token) = Inl Unauthorized)
           = token_refused H agent token
       \<and> (\<not> token_refused H agent token \<longrightarrow>
            fst (agent_unregister H s (Some a) token) = Inr (Unregistered a))"
proof -
  have ok: "hash_ok H agent" using reachable_entry(2) [OF reach reg] .
  note ct = checkToken_refused [OF ok inj ne]
  note ra = requireAgent_own [OF reg]
  show ?thesis
  proof (intro conjI)
    show "tokenHash agent = None \<longrightarrow> checkToken H (VAgent agent) token = Inr ()"
      by (simp add: ct token_refused_def)
    show "\<forall>h. tokenHash agent = Some h \<longrightarrow>
             (checkToken H (VAgent agent) token = Inl Unauthorized)
               = (token = None \<or> H (the token) \<noteq> h)"
      by (cases token) (auto simp: ct token_refused_def)
    show "\<forall>h. tokenHash agent = Some h \<and> token \<noteq> None \<and> H (the token) = h \<longrightarrow>
             checkToken H (VAgent agent) token = Inr ()"
      by (cases token) (auto simp: ct token_refused_def)
    show "(fst (agent_unregister H s (Some a) token) = Inl Unauthorized)
           = token_refused H agent token"
      by (simp add: agent_unregister_def ra ct Let_def)
    show "(fst (message_read H s (Some a) mx drain token) = Inl Unauthorized)
           = token_refused H agent token"
      by (simp add: message_read_def ra ct Let_def split: option.splits boxval.splits)
    show "(fst (message_send H uuid now s (Some a) to bdy meta token) = Inl Unauthorized)
           = token_refused H agent token"
      by (simp add: message_send_gate [OF ra] ct)
    show "\<not> token_refused H agent token \<longrightarrow>
            fst (agent_unregister H s (Some a) token) = Inr (Unregistered a)"
      by (simp add: agent_unregister_def ra ct Let_def key_of_def)
  qed
qed

lemma sample_digest_ideal: "inj sample_digest" "\<forall>t. sample_digest t \<noteq> []"
  by (simp_all add: inj_def sample_digest_def)

lemma three_registrations_reachable: "reachable sample_digest three_registrations"
  unfolding three_registrations_def by (intro reach_step reach_empty)

theorem token_gate_witness:
  "fst (message_read sample_digest three_registrations (Some ''trinity'') None None None)
     = Inl Unauthorized
   \<and> fst (message_read sample_digest three_registrations (Some ''trinity'') None None (Some ''bad''))
     = Inl Unauthorized
   \<and> fst (message_read sample_digest three_registrations (Some ''trinity'') None None (Some ''''))
     = Inl Unauthorized
   \<and> fst (agent_unregister sample_digest three_registrations (Some ''trinity'') (Some ''t1''))
       = Inr (Unregistered ''trinity'')"
proof -
  have reg: "obj_get (agents three_registrations) ''trinity'' = Some trinity"
    by (simp add: three_registrations_value obj_get_def)
  have r1: "token_refused sample_digest trinity None"
    and r2: "token_refused sample_digest trinity (Some ''bad'')"
    and r3: "token_refused sample_digest trinity (Some '''')"
    and r4: "\<not> token_refused sample_digest trinity (Some ''t1'')"
    by (simp_all add: token_refused_def trinity_def sample_digest_def)
  note g = token_gate [OF three_registrations_reachable sample_digest_ideal reg]
  show ?thesis
    using g [of None] g [of "Some ''bad''"] g [of "Some ''''"] g [of "Some ''t1''"] r1 r2 r3 r4
    by simp
qed

section \<open>Sending a message\<close>

lemma inherits_names: "\<not> inherits s k \<Longrightarrow> k \<notin> set object_prototype_names"
  by (simp add: inherits_def)

lemma requireAgent_plain:
  "\<not> inherits s k \<Longrightarrow>
   requireAgent s (Some k) = (case obj_get (agents s) k of
                                None \<Rightarrow> Inl (AgentNotFound k) | Some a \<Rightarrow> Inr (VAgent a))"
  by (cases "obj_get (agents s) k") (simp_all add: requireAgent_def key_of_def agents_get_plain)

lemma send_refused_directional:
  assumes "frm \<noteq> to" and "obj_get (agents s) to = Some r"
  shows "send_refused H (s\<lparr>agents := obj_set (agents s) to (r\<lparr>allowlist := al\<rparr>)\<rparr>) frm to token
       = send_refused H s frm to token"
  using assms by (cases "obj_get (agents s) frm") (simp_all add: send_refused_def obj_get_set)

lemma message_send_plain:
  assumes nf: "\<not> inherits s frm" and nt: "\<not> inherits s to"
    and frm: "obj_get (agents s) frm = Some sender"
    and tok: "checkToken H (VAgent sender) token = Inr ()"
    and rcp: "obj_get (agents s) to = Some r"
    and al: "allowlist sender = Some l" and mem: "to \<in> set l"
  shows "message_send H uuid now s (Some frm) (Some to) bdy meta token =
     (Inr (Sent to),
      (case obj_get (mailboxes s) to of
         None \<Rightarrow> s\<lparr>mailboxes := obj_set (obj_set (mailboxes s) to []) to
                    [\<lparr>msg_id = uuid, msg_ts = now, msg_from = Some frm, msg_to = Some to,
                      msg_body = bdy, msg_meta = meta\<rparr>]\<rparr>
       | Some ms \<Rightarrow> s\<lparr>mailboxes := obj_set (mailboxes s) to
                    (ms @ [\<lparr>msg_id = uuid, msg_ts = now, msg_from = Some frm, msg_to = Some to,
                      msg_body = bdy, msg_meta = meta\<rparr>])\<rparr>))"
  by (cases "obj_get (mailboxes s) to")
     (simp_all add: message_send_def requireAgent_own [OF frm] requireAgent_own [OF rcp] tok al mem
        key_of_def Let_def mailboxes_get_plain [OF inherits_names [OF nt]] obj_get_set)

text \<open>
  C1 (amended). Take the digest to be injective and never empty. In every state reachable
  through the handler, for a sender and a recipient that the registry does not inherit
  from its prototype chain, \<open>message_send\<close> returns an error exactly when the send is
  refused: the sender is not registered (\<open>AgentNotFound\<close>), the sender has a
  \<open>tokenHash\<close> and the token is absent or hashes to another value
  (\<open>Unauthorized\<close>), the recipient is not registered (\<open>AgentNotFound\<close> naming
  the recipient), or the recipient is not in the sender's allowlist (\<open>NotAllowed\<close>,
  or a \<open>TypeError\<close> when the sender was registered without an allowlist); the first
  of these in that order decides the error. Otherwise it succeeds, leaves the registry
  alone, puts the one new message with the given \<open>from\<close>/\<open>to\<close>/\<open>body\<close>/\<open>meta\<close>
  at the tail of the recipient's mailbox and leaves every other mailbox as it was. Only
  the sender's allowlist is consulted.
\<close>

theorem message_send_errors:
  assumes reach: "reachable H s" and inj: "inj H" and ne: "\<forall>t. H t \<noteq> []"
    and nf: "\<not> inherits s frm" and nt: "\<not> inherits s to"
  shows "fst (message_send H uuid now s (Some frm) (Some to) bdy meta token) =
           (case obj_get (agents s) frm of
              None \<Rightarrow> Inl (AgentNotFound frm)
            | Some sender \<Rightarrow>
                if token_refused H sender token then Inl Unauthorized
                else if obj_get (agents s) to = None then Inl (AgentNotFound to)
                else (case allowlist sender of
                        None \<Rightarrow> Inl TypeError
                      | Some l \<Rightarrow> if to \<notin> set l then Inl (NotAllowed frm to)
                                  else Inr (Sent to)))
       \<and> isl (fst (message_send H uuid now s (Some frm) (Some to) bdy meta token))
           = send_refused H s frm to token
       \<and> (\<forall>r al. frm \<noteq> to \<and> obj_get (agents s) to = Some r \<longrightarrow>
             send_refused H (s\<lparr>agents := obj_set (agents s) to (r\<lparr>allowlist := al\<rparr>)\<rparr>) frm to token
               = send_refused H s frm to token)
       \<and> (\<not> send_refused H s frm to token \<longrightarrow>
            agents (snd (message_send H uuid now s (Some frm) (Some to) bdy meta token)) = agents s
            \<and> agents_proto (snd (message_send H uuid now s (Some frm) (Some to) bdy meta token))
                = agents_proto s
            \<and> obj_get (mailboxes (snd (message_send H uuid now s (Some frm) (Some to) bdy meta
                  token))) to =
                Some ((case obj_get (mailboxes s) to of None \<Rightarrow> [] | Some b \<Rightarrow> b) @
                       [\<lparr>msg_id = uuid, msg_ts = now, msg_from = Some frm, msg_to = Some to,
                         msg_body = bdy, msg_meta = meta\<rparr>])
            \<and> (\<forall>k. k \<noteq> to \<longrightarrow>
                  obj_get (mailboxes (snd (message_send H uuid now s (Some frm) (Some to) bdy meta
                    token))) k = obj_get (mailboxes s) k))"
proof -
  let ?send = "message_send H uuid now s (Some frm) (Some to) bdy meta token"
  have res: "fst ?send =
           (case obj_get (agents s) frm of
              None \<Rightarrow> Inl (AgentNotFound frm)
            | Some sender \<Rightarrow>
                if token_refused H sender token then Inl Unauthorized
                else if obj_get (agents s) to = None then Inl (AgentNotFound to)
                else (case allowlist sender of
                        None \<Rightarrow> Inl TypeError
                      | Some l \<Rightarrow> if to \<notin> set l then Inl (NotAllowed frm to)
                                  else Inr (Sent to)))"
  proof (cases "obj_get (agents s) frm")
    case None
    then show ?thesis
      by (simp add: message_send_def requireAgent_plain [OF nf])
  next
    case (Some sender)
    have ct: "checkToken H (VAgent sender) token
       = (if token_refused H sender token then Inl Unauthorized else Inr ())"
      using reachable_entry(2) [OF reach Some] inj ne by (rule checkToken_refused)
    show ?thesis
    proof (cases "token_refused H sender token")
      case True
      with Some show ?thesis
        by (simp add: message_send_def requireAgent_own [OF Some] ct)
    next
      case False
      note ok = False
      show ?thesis
      proof (cases "obj_get (agents s) to")
        case None
        with Some ok show ?thesis
          by (simp add: message_send_def requireAgent_own [OF Some] ct requireAgent_plain [OF nt])
      next
        case (Some r)
        note rcp = Some
        show ?thesis
        proof (cases "allowlist sender")
          case None
          with \<open>obj_get (agents s) frm = Some sender\<close> ok rcp show ?thesis
            by (simp add: message_send_def requireAgent_own [OF \<open>obj_get (agents s) frm = Some sender\<close>]
                ct requireAgent_own [OF rcp])
        next
          case (Some l)
          show ?thesis
          proof (cases "to \<in> set l")
            case True
            have "checkToken H (VAgent sender) token = Inr ()" using ok by (simp add: ct)
            from message_send_plain [OF nf nt \<open>obj_get (agents s) frm = Some sender\<close> this rcp Some True]
            show ?thesis
              using \<open>obj_get (agents s) frm = Some sender\<close> ok rcp Some True
              by (simp split: option.splits)
          next
            case False
            with \<open>obj_get (agents s) frm = Some sender\<close> ok rcp Some show ?thesis
              by (simp add: message_send_def
                  requireAgent_own [OF \<open>obj_get (agents s) frm = Some sender\<close>]
                  ct requireAgent_own [OF rcp] key_of_def)
          qed
        qed
      qed
    qed
  qed
  have refused: "isl (fst ?send) = send_refused H s frm to token"
    by (simp add: res send_refused_def in_allowlist_def split: option.splits)
  have frame: "agents (snd ?send) = agents s \<and> agents_proto (snd ?send) = agents_proto s
      \<and> obj_get (mailboxes (snd ?send)) to =
          Some ((case obj_get (mailboxes s) to of None \<Rightarrow> [] | Some b \<Rightarrow> b) @
                 [\<lparr>msg_id = uuid, msg_ts = now, msg_from = Some frm, msg_to = Some to,
                   msg_body = bdy, msg_meta = meta\<rparr>])
      \<and> (\<forall>k. k \<noteq> to \<longrightarrow> obj_get (mailboxes (snd ?send)) k = obj_get (mailboxes s) k)"
    if acc: "\<not> send_refused H s frm to token"
  proof -
    from acc obtain sender r l where
      f: "obj_get (agents s) frm = Some sender" and t: "obj_get (agents s) to = Some r"
      and tk: "\<not> token_refused H sender token"
      and al: "allowlist sender = Some l" and mem: "to \<in> set l"
      by (auto simp: send_refused_def in_allowlist_def split: option.splits)
    have "checkToken H (VAgent sender) token = Inr ()"
      using checkToken_refused [OF reachable_entry(2) [OF reach f] inj ne] tk by simp
    from message_send_plain [OF nf nt f this t al mem]
    show ?thesis
      by (cases "obj_get (mailboxes s) to") (simp_all add: obj_get_set)
  qed
  show ?thesis
    using res refused frame by (simp add: send_refused_directional)
qed

lemma plain_names:
  "array_index_of ''toString'' = None" "array_index_of ''morpheus'' = None"
  "array_index_of ''undefined'' = None"
  by (simp_all add: array_index_of_def is_digit_def)

lemma toString_bus_value:
  "toString_bus =
     \<lparr>agents = [(''toString'', \<lparr>agentId = Some ''toString'', capabilities = JNull,
                               allowlist = Some [], tokenHash = None\<rparr>),
                 (''neo'', \<lparr>agentId = Some ''neo'', capabilities = JNull,
                           allowlist = Some [''toString''], tokenHash = None\<rparr>),
                 (''morpheus'', \<lparr>agentId = Some ''morpheus'', capabilities = JNull,
                           allowlist = None, tokenHash = None\<rparr>)],
      mailboxes = [(''neo'', []), (''morpheus'', [])], agents_proto = None\<rparr>"
  by (simp add: toString_bus_def call_tool_def run_tool_def register_req_def no_args_def
        agent_register_def agents_assign_def mailboxes_get_def function_lengths_def key_of_def
        empty_state_def truthy_def obj_get_def obj_set_def obj_insert_def plain_sample_names
        plain_names)

lemma toString_bus_reachable: "reachable sample_digest toString_bus"
  unfolding toString_bus_def by (intro reach_step reach_empty)

theorem message_send_errors_witness:
  "fst (message_send sample_digest ''u4'' 4 three_registrations (Some ''trinity'') (Some ''neo'')
         (Some ''hi'') JUndefined (Some ''t1'')) = Inr (Sent ''neo'')
   \<and> obj_get (mailboxes (snd (message_send sample_digest ''u4'' 4 three_registrations
         (Some ''trinity'') (Some ''neo'') (Some ''hi'') JUndefined (Some ''t1'')))) ''neo''
       = Some [\<lparr>msg_id = ''u4'', msg_ts = 4, msg_from = Some ''trinity'', msg_to = Some ''neo'',
                msg_body = Some ''hi'', msg_meta = JUndefined\<rparr>]
   \<and> fst (message_send sample_digest ''u4'' 4 three_registrations (Some ''trinity'') (Some ''neo'')
         (Some ''hi'') JUndefined None) = Inl Unauthorized
   \<and> fst (message_send sample_digest ''u4'' 4 three_registrations (Some ''neo'') (Some ''trinity'')
         (Some ''hi'') JUndefined (Some ''n1'')) = Inl (NotAllowed ''neo'' ''trinity'')
   \<and> fst (message_send sample_digest ''u4'' 4 three_registrations (Some ''trinity'')
         (Some ''morpheus'') (Some ''hi'') JUndefined (Some ''t1''))
       = Inl (AgentNotFound ''morpheus'')"
proof -
  have plain: "\<not> inherits three_registrations ''trinity''" "\<not> inherits three_registrations ''neo''"
    "\<not> inherits three_registrations ''morpheus''"
    by (simp_all add: inherits_def three_registrations_value object_prototype_names_def
          function_lengths_def)
  have look: "obj_get (agents three_registrations) ''trinity'' = Some trinity"
    "obj_get (agents three_registrations) ''neo''
       = Some \<lparr>agentId = Some ''neo'', capabilities = JNull, allowlist = Some [],
               tokenHash = Some (sample_digest ''n1'')\<rparr>"
    "obj_get (agents three_registrations) ''morpheus'' = None"
    "obj_get (mailboxes three_registrations) ''neo'' = Some []"
    by (simp_all add: three_registrations_value obj_get_def)
  have tok: "\<not> token_refused sample_digest trinity (Some ''t1'')"
    "token_refused sample_digest trinity None"
    "\<not> token_refused sample_digest \<lparr>agentId = Some ''neo'', capabilities = JNull,
         allowlist = Some [], tokenHash = Some (sample_digest ''n1'')\<rparr> (Some ''n1'')"
    by (simp_all add: token_refused_def trinity_def sample_digest_def)
  have al: "allowlist trinity = Some [''neo'']" by (simp add: trinity_def)
  have acc: "\<not> send_refused sample_digest three_registrations ''trinity'' ''neo'' (Some ''t1'')"
    by (simp add: send_refused_def look tok in_allowlist_def al)
  note e = message_send_errors [OF three_registrations_reachable sample_digest_ideal]
  show ?thesis
    using e [OF plain(1) plain(2), of "''u4''" 4 "Some ''hi''" JUndefined "Some ''t1''"]
      e [OF plain(1) plain(2), of "''u4''" 4 "Some ''hi''" JUndefined None]
      e [OF plain(2) plain(1), of "''u4''" 4 "Some ''hi''" JUndefined "Some ''n1''"]
      e [OF plain(1) plain(3), of "''u4''" 4 "Some ''hi''" JUndefined "Some ''t1''"]
      acc
    by (simp add: look tok al)
qed

text \<open>
  After an agent has registered under the name \<open>toString\<close>, a registered sender
  without a \<open>tokenHash\<close> and with \<open>toString\<close> in its allowlist cannot send to it:
  no mailbox was created for that name and \<open>.push\<close> is a \<open>TypeError\<close>. A sender
  registered without an allowlist gets a \<open>TypeError\<close>, not \<open>NotAllowed\<close>.
\<close>

theorem message_send_to_toString:
  "reachable sample_digest toString_bus
   \<and> \<not> send_refused sample_digest toString_bus ''neo'' ''toString'' None
   \<and> fst (message_send sample_digest ''u4'' 4 toString_bus (Some ''neo'') (Some ''toString'')
         (Some ''hi'') JUndefined None) = Inl TypeError
   \<and> obj_get (agents toString_bus) ''neo'' \<noteq> None
   \<and> fst (message_send sample_digest ''u4'' 4 toString_bus (Some ''morpheus'') (Some ''neo'')
         (Some ''hi'') JUndefined None) = Inl TypeError"
proof (intro conjI)
  show "reachable sample_digest toString_bus" by (rule toString_bus_reachable)
  show "\<not> send_refused sample_digest toString_bus ''neo'' ''toString'' None"
    by (simp add: send_refused_def toString_bus_value obj_get_def token_refused_def
          in_allowlist_def)
  show "fst (message_send sample_digest ''u4'' 4 toString_bus (Some ''neo'') (Some ''toString'')
         (Some ''hi'') JUndefined None) = Inl TypeError"
    by (simp add: message_send_def requireAgent_def agents_get_def mailboxes_get_def
          function_lengths_def checkToken_def key_of_def toString_bus_value obj_get_def)
  show "obj_get (agents toString_bus) ''neo'' \<noteq> None"
    by (simp add: toString_bus_value obj_get_def)
  show "fst (message_send sample_digest ''u4'' 4 toString_bus (Some ''morpheus'') (Some ''neo'')
         (Some ''hi'') JUndefined None) = Inl TypeError"
    by (simp add: message_send_def requireAgent_def agents_get_def
          checkToken_def key_of_def toString_bus_value obj_get_def)
qed

section \<open>Registering an agent\<close>

lemma agents_assign_lookup:
  assumes "k \<noteq> ''__proto__''"
  shows "obj_get (agents (agents_assign s k v)) k' = (if k' = k then Some v else obj_get (agents s) k')"
    and "mailboxes (agents_assign s k v) = mailboxes s"
    and "agents_proto (agents_assign s k v) = agents_proto s"
  using assms
  by (auto simp: agents_assign_def obj_get_replace obj_get_insert)

text \<open>
  C3 (amended). For every \<open>agentId\<close> that is not the name of a member of
  \<open>Object.prototype\<close>, \<open>agent_register\<close> succeeds, and afterwards the record
  under \<open>agentId\<close> is exactly the supplied \<open>agentId\<close>, \<open>capabilities\<close> and
  \<open>allowlist\<close>, with \<open>tokenHash = hashToken(token)\<close> when a non-empty token is
  supplied and no \<open>tokenHash\<close> when the token is absent or the empty string; every
  other record and the prototype of the registry are as before. The mailbox of
  \<open>agentId\<close> is the one it had, or empty if it had none; every other mailbox is as
  before.
\<close>

theorem agent_register_replaces:
  assumes plain: "key_of a \<notin> set object_prototype_names"
  shows "fst (agent_register H s a caps allow token) = Inr (Registered (key_of a))
   \<and> obj_get (agents (snd (agent_register H s a caps allow token))) (key_of a) =
       Some \<lparr>agentId = a, capabilities = caps, allowlist = allow,
             tokenHash = (case token of None \<Rightarrow> None
                          | Some t \<Rightarrow> if t = [] then None else Some (H t))\<rparr>
   \<and> (\<forall>k. k \<noteq> key_of a \<longrightarrow>
         obj_get (agents (snd (agent_register H s a caps allow token))) k = obj_get (agents s) k)
   \<and> agents_proto (snd (agent_register H s a caps allow token)) = agents_proto s
   \<and> obj_get (mailboxes (snd (agent_register H s a caps allow token))) (key_of a) =
       Some (case obj_get (mailboxes s) (key_of a) of None \<Rightarrow> [] | Some ms \<Rightarrow> ms)
   \<and> (\<forall>k. k \<noteq> key_of a \<longrightarrow>
         obj_get (mailboxes (snd (agent_register H s a caps allow token))) k
           = obj_get (mailboxes s) k)"
proof -
  have th: "(if truthy token then Some (H (the token)) else None) =
      (case token of None \<Rightarrow> None | Some t \<Rightarrow> if t = [] then None else Some (H t))"
    by (cases token) (simp_all add: truthy_def)
  have np: "key_of a \<noteq> ''__proto__''"
    using plain by (auto simp: object_prototype_names_def)
  note look = agents_assign_lookup [OF np]
  show ?thesis
    by (cases "obj_get (mailboxes s) (key_of a)")
       (simp_all add: agent_register_def Let_def th look mailboxes_get_plain [OF plain]
          obj_get_set)
qed

theorem agent_register_replaces_witness:
  "obj_get (agents (snd (agent_register sample_digest sample_state (Some ''trinity'') JNull
      (Some []) None))) ''trinity''
     = Some \<lparr>agentId = Some ''trinity'', capabilities = JNull, allowlist = Some [],
             tokenHash = None\<rparr>
   \<and> obj_get (agents (snd (agent_register sample_digest sample_state (Some ''trinity'') JNull
      (Some []) None))) ''neo'' = Some neo
   \<and> obj_get (mailboxes (snd (agent_register sample_digest sample_state (Some ''trinity'') JNull
      (Some []) None))) ''trinity'' = Some [memo ''a'', memo ''b'', memo ''c'']"
proof -
  have p: "key_of (Some ''trinity'') \<notin> set object_prototype_names"
    by (simp add: key_of_def object_prototype_names_def function_lengths_def)
  from agent_register_replaces [OF p, of sample_digest sample_state JNull "Some []" None]
  show ?thesis by (simp add: sample_lookup key_of_def)
qed

text \<open>
  Registering with the empty string as token stores no \<open>tokenHash\<close>, not the hash of
  the empty string. Registering under the name \<open>toString\<close> creates no mailbox, and
  registering under \<open>__proto__\<close> stores no record.
\<close>

theorem agent_register_empty_token:
  "obj_get (agents (snd (agent_register sample_digest empty_state (Some ''neo'') JNull (Some [])
      (Some '''')))) ''neo''
     = Some \<lparr>agentId = Some ''neo'', capabilities = JNull, allowlist = Some [], tokenHash = None\<rparr>
   \<and> Some (sample_digest '''') \<noteq> (None :: string option)
   \<and> snd (agent_register sample_digest empty_state (Some ''toString'') JNull (Some []) None)
     = \<lparr>agents = [(''toString'', \<lparr>agentId = Some ''toString'', capabilities = JNull,
                                  allowlist = Some [], tokenHash = None\<rparr>)],
        mailboxes = [], agents_proto = None\<rparr>
   \<and> snd (agent_register sample_digest empty_state (Some ''__proto__'') JNull (Some []) None)
     = \<lparr>agents = [], mailboxes = [],
        agents_proto = Some \<lparr>agentId = Some ''__proto__'', capabilities = JNull,
                              allowlist = Some [], tokenHash = None\<rparr>\<rparr>"
  by (simp add: agent_register_def agents_assign_def mailboxes_get_def function_lengths_def
        key_of_def empty_state_def truthy_def obj_get_def obj_set_def obj_insert_def
        plain_sample_names plain_names)

section \<open>Requests with arguments missing\<close>

lemma call_tool_error_shape:
  assumes "fst (run_tool H uuid now s req) = Inl e"
  shows "call_tool H uuid now s req = (\<lparr>content = ErrorText e, isError = True\<rparr>, s)"
  using assms run_tool_error_keeps_state [OF assms]
  by (cases "run_tool H uuid now s req") (simp add: call_tool_def)

lemma requireAgent_undefined:
  "\<not> val_truthy (agents_get s ''undefined'') \<Longrightarrow>
   requireAgent s None = Inl (AgentNotFound ''undefined'')"
  by (simp add: requireAgent_def key_of_def)

lemma message_send_no_recipient:
  assumes "obj_get (agents s) f = Some sender"
  shows "isl (fst (message_send H uuid now s (Some f) None bdy meta token))"
  by (cases "checkToken H (VAgent sender) token"; cases "requireAgent s None";
      cases "allowlist sender")
     (simp_all add: message_send_def requireAgent_own [OF assms])

text \<open>
  C7 (amended). A request for any operation but \<open>agent_list\<close> whose \<open>arguments\<close>
  are omitted, and a request whose name is none of the six operations, are answered with
  an error payload and leave the state alone. So are \<open>agent_unregister\<close> and
  \<open>message_read\<close> without \<open>agentId\<close> and \<open>message_send\<close> without \<open>from\<close>
  (\<open>AgentNotFound\<close> naming \<open>undefined\<close>), unless a read of the registry under
  the key \<open>undefined\<close> finds something, and \<open>message_send\<close> without \<open>to\<close>
  from a registered sender. Every error the handler reports has the same
  payload shape and leaves the state alone. \<open>agent_register\<close> with its
  \<open>arguments\<close> present never reports an error, whichever of them are missing.
\<close>

theorem dispatcher_error_payload:
  "(arguments req = None \<and> tool_name req \<in> set [''agent_register'', ''agent_unregister'',
        ''message_send'', ''message_read'', ''message_peek''] \<longrightarrow>
      call_tool H uuid now s req = (\<lparr>content = ErrorText TypeError, isError = True\<rparr>, s))
   \<and> (tool_name req \<notin> set [''agent_list'', ''agent_register'', ''agent_unregister'',
        ''message_send'', ''message_read'', ''message_peek''] \<longrightarrow>
      call_tool H uuid now s req
        = (\<lparr>content = ErrorText (UnknownTool (tool_name req)), isError = True\<rparr>, s))
   \<and> (\<not> val_truthy (agents_get s ''undefined'') \<longrightarrow>
        call_tool H uuid now s (unregister_req None token)
          = (\<lparr>content = ErrorText (AgentNotFound ''undefined''), isError = True\<rparr>, s)
        \<and> call_tool H uuid now s (read_req None mx drain token)
          = (\<lparr>content = ErrorText (AgentNotFound ''undefined''), isError = True\<rparr>, s)
        \<and> call_tool H uuid now s (send_req None to bdy meta token)
          = (\<lparr>content = ErrorText (AgentNotFound ''undefined''), isError = True\<rparr>, s))
   \<and> (obj_get (agents s) f \<noteq> None \<longrightarrow>
        isError (fst (call_tool H uuid now s (send_req (Some f) None bdy meta token)))
        \<and> snd (call_tool H uuid now s (send_req (Some f) None bdy meta token)) = s)
   \<and> (isError (fst (call_tool H uuid now s req)) \<longrightarrow>
        (\<exists>e. fst (call_tool H uuid now s req) = \<lparr>content = ErrorText e, isError = True\<rparr>)
        \<and> snd (call_tool H uuid now s req) = s)
   \<and> (tool_name req = ''agent_register'' \<and> arguments req \<noteq> None \<longrightarrow>
        \<not> isError (fst (call_tool H uuid now s req)))"
proof (intro conjI impI)
  assume "arguments req = None \<and> tool_name req \<in> set [''agent_register'', ''agent_unregister'',
        ''message_send'', ''message_read'', ''message_peek'']"
  then have "fst (run_tool H uuid now s req) = Inl TypeError"
    by (auto simp: run_tool_def)
  then show "call_tool H uuid now s req = (\<lparr>content = ErrorText TypeError, isError = True\<rparr>, s)"
    by (rule call_tool_error_shape)
next
  assume "tool_name req \<notin> set [''agent_list'', ''agent_register'', ''agent_unregister'',
        ''message_send'', ''message_read'', ''message_peek'']"
  then have "fst (run_tool H uuid now s req) = Inl (UnknownTool (tool_name req))"
    by (simp add: run_tool_def)
  then show "call_tool H uuid now s req
        = (\<lparr>content = ErrorText (UnknownTool (tool_name req)), isError = True\<rparr>, s)"
    by (rule call_tool_error_shape)
next
  assume u: "\<not> val_truthy (agents_get s ''undefined'')"
  have "fst (run_tool H uuid now s (unregister_req None token)) = Inl (AgentNotFound ''undefined'')"
    by (simp add: run_tool_def unregister_req_def no_args_def agent_unregister_def
          requireAgent_undefined [OF u])
  then show "call_tool H uuid now s (unregister_req None token)
          = (\<lparr>content = ErrorText (AgentNotFound ''undefined''), isError = True\<rparr>, s)"
    by (rule call_tool_error_shape)
  have "fst (run_tool H uuid now s (read_req None mx drain token)) = Inl (AgentNotFound ''undefined'')"
    by (simp add: run_tool_def read_req_def no_args_def message_read_def
          requireAgent_undefined [OF u])
  then show "call_tool H uuid now s (read_req None mx drain token)
          = (\<lparr>content = ErrorText (AgentNotFound ''undefined''), isError = True\<rparr>, s)"
    by (rule call_tool_error_shape)
  have "fst (run_tool H uuid now s (send_req None to bdy meta token)) = Inl (AgentNotFound ''undefined'')"
    by (simp add: run_tool_def send_req_def no_args_def message_send_def
          requireAgent_undefined [OF u])
  then show "call_tool H uuid now s (send_req None to bdy meta token)
          = (\<lparr>content = ErrorText (AgentNotFound ''undefined''), isError = True\<rparr>, s)"
    by (rule call_tool_error_shape)
next
  assume "obj_get (agents s) f \<noteq> None"
  then obtain sender where "obj_get (agents s) f = Some sender" by auto
  then have "isl (fst (run_tool H uuid now s (send_req (Some f) None bdy meta token)))"
    by (simp add: run_tool_def send_req_def no_args_def message_send_no_recipient)
  then obtain e where "fst (run_tool H uuid now s (send_req (Some f) None bdy meta token)) = Inl e"
    by (auto simp: isl_def)
  from call_tool_error_shape [OF this]
  show "isError (fst (call_tool H uuid now s (send_req (Some f) None bdy meta token)))"
    and "snd (call_tool H uuid now s (send_req (Some f) None bdy meta token)) = s"
    by simp_all
next
  assume err: "isError (fst (call_tool H uuid now s req))"
  then obtain e where e: "fst (run_tool H uuid now s req) = Inl e"
    by (auto simp: call_tool_isError isl_def)
  show "\<exists>e. fst (call_tool H uuid now s req) = \<lparr>content = ErrorText e, isError = True\<rparr>"
    using call_tool_error_shape [OF e] by auto
  show "snd (call_tool H uuid now s req) = s"
    using call_tool_error_shape [OF e] by simp
next
  assume "tool_name req = ''agent_register'' \<and> arguments req \<noteq> None"
  then show "\<not> isError (fst (call_tool H uuid now s req))"
    by (auto simp: call_tool_isError run_tool_def agent_register_def Let_def)
qed

theorem dispatcher_error_payload_witness:
  "call_tool sample_digest ''u1'' 7 sample_state (unregister_req None None)
     = (\<lparr>content = ErrorText (AgentNotFound ''undefined''), isError = True\<rparr>, sample_state)
   \<and> call_tool sample_digest ''u1'' 7 sample_state \<lparr>tool_name = ''message_read'', arguments = None\<rparr>
     = (\<lparr>content = ErrorText TypeError, isError = True\<rparr>, sample_state)
   \<and> call_tool sample_digest ''u1'' 7 sample_state \<lparr>tool_name = ''agent_delete'', arguments = None\<rparr>
     = (\<lparr>content = ErrorText (UnknownTool ''agent_delete''), isError = True\<rparr>, sample_state)"
proof -
  have u: "\<not> val_truthy (agents_get sample_state ''undefined'')"
    by (simp add: agents_get_def sample_state_def obj_get_def object_prototype_names_def
          function_lengths_def)
  show ?thesis
    using dispatcher_error_payload [of "\<lparr>tool_name = ''message_read'', arguments = None\<rparr>"
        sample_digest "''u1''" 7 sample_state None None None None None JUndefined]
      dispatcher_error_payload [of "\<lparr>tool_name = ''agent_delete'', arguments = None\<rparr>"
        sample_digest "''u1''" 7 sample_state None None None None None JUndefined]
      u
    by simp
qed

text \<open>
  \<open>agent_register\<close> without \<open>agentId\<close> is performed: the answer is the
  acknowledgement, and the registry holds a record under the key \<open>undefined\<close>.
  \<open>agent_unregister\<close> without \<open>agentId\<close> then removes it.
\<close>

theorem register_without_agentId:
  "call_tool sample_digest ''u1'' 7 empty_state (register_req None JNull (Some [''trinity'']) None)
     = (\<lparr>content = Registered ''undefined'', isError = False\<rparr>,
        \<lparr>agents = [(''undefined'', \<lparr>agentId = None, capabilities = JNull,
                                    allowlist = Some [''trinity''], tokenHash = None\<rparr>)],
         mailboxes = [(''undefined'', [])], agents_proto = None\<rparr>)
   \<and> snd (call_tool sample_digest ''u1'' 7 empty_state
        (register_req None JNull (Some [''trinity'']) None)) \<noteq> empty_state
   \<and> call_tool sample_digest ''u2'' 8
        \<lparr>agents = [(''undefined'', \<lparr>agentId = None, capabilities = JNull,
                                    allowlist = Some [''trinity''], tokenHash = None\<rparr>)],
         mailboxes = [(''undefined'', [])], agents_proto = None\<rparr>
        (unregister_req None None)
     = (\<lparr>content = Unregistered ''undefined'', isError = False\<rparr>, empty_state)"
  by (simp add: call_tool_def run_tool_def register_req_def unregister_req_def no_args_def
        agent_register_def agent_unregister_def requireAgent_def agents_get_def checkToken_def
        agents_assign_def mailboxes_get_def function_lengths_def key_of_def
        empty_state_def truthy_def obj_get_def obj_set_def obj_insert_def obj_delete_def
        plain_names)

end
